theory Spec2Isabelle
  imports Main
begin

section \<open>Regular weak references of the Kotlin/Native memory manager (Weak.cpp)\<close>

text \<open>
  The development embeds \<^verbatim>\<open>kotlin-native/runtime/src/mm/cpp/Weak.cpp\<close>:
  the four entry points \<^verbatim>\<open>createRegularWeakReferenceImpl\<close>,
  \<^verbatim>\<open>disposeRegularWeakReferenceImpl\<close>, \<^verbatim>\<open>derefRegularWeakReferenceImpl\<close> and
  \<^verbatim>\<open>regularWeakReferenceImplBaseObjectUnsafe\<close>, over an explicit store.
  What the file includes but does not define (the side table \<^verbatim>\<open>ExtraObjectData\<close>,
  the allocation \<^verbatim>\<open>makeRegularWeakReferenceImpl\<close>, \<^verbatim>\<open>AssertThreadState\<close> and
  \<^verbatim>\<open>ReadHeapRefAtomic\<close>) is modelled from the specification and marked so.
\<close>

subsection \<open>Pointers, objects and the store\<close>

text \<open>A pointer is an address; address 0 is \<^verbatim>\<open>nullptr\<close>.\<close>

type_synonym ptr = nat

abbreviation nullptr :: ptr where
  "nullptr \<equiv> 0"

text \<open>
  \<^verbatim>\<open>struct RegularWeakReferenceImpl { ObjHeader header; void* referred; }\<close>.
  The type \<^verbatim>\<open>ObjHeader\<close> is declared outside the file and never inspected by it:
  it is the type parameter \<open>'h\<close>.
\<close>

record 'h RegularWeakReferenceImpl =
  header :: 'h
  referred :: ptr

text \<open>
  A heap object is either a weak reference or any other managed object, of which only
  the header (\<open>'h\<close>) and an opaque body (\<open>'b\<close>) are known.
\<close>

datatype ('h, 'b) heapObject =
    PlainObject 'h 'b
  | WeakReferenceObject "'h RegularWeakReferenceImpl"

text \<open>
  Modelled from the spec: \<^verbatim>\<open>ExtraObjectData\<close> (ExtraObjectData.hpp is not part of the
  sources), the per-object side-table entry that holds a non-owning pointer to at most
  one weak reference of the object, or empty (\<^verbatim>\<open>nullptr\<close>).
\<close>

record ExtraObjectData =
  regularWeakReferenceImpl :: ptr

text \<open>
  Modelled from the spec: \<^verbatim>\<open>ThreadState\<close> (ThreadState.hpp is not part of the sources).
  The source names \<^verbatim>\<open>ThreadState::kRunnable\<close> only; the second value stands for a thread
  that is not in the runnable mutator state.
\<close>

datatype ThreadState = kRunnable | kNotRunnable

text \<open>
  The ways a call does not return normally: the failed thread-state assertion of
  \<^verbatim>\<open>create\<close>, and a \<^verbatim>\<open>weakRef\<close> argument that does not address a
  \<^verbatim>\<open>RegularWeakReferenceImpl\<close> (the \<^verbatim>\<open>reinterpret_cast\<close> of the source is then
  undefined behaviour).
\<close>

datatype failure = ThreadStateAssertionFailed | NotAWeakReference

text \<open>
  The store. Address \<open>p > 0\<close> names the cell \<open>heap ! (p - 1)\<close>; allocation appends a cell,
  so a new address is never \<^verbatim>\<open>nullptr\<close> and never one in use. Reclaiming objects is
  the collector's work, outside the file: no cell is ever removed. \<open>extraObjects\<close> is the
  side table keyed by object address, \<open>currentThreadState\<close> the state of
  \<^verbatim>\<open>ThreadRegistry::Instance().CurrentThreadData()\<close>, and \<open>weakRefHeader\<close> the header
  the allocator gives a new \<^verbatim>\<open>RegularWeakReferenceImpl\<close>.
\<close>

record ('h, 'b) runtime =
  heap :: "('h, 'b) heapObject list"
  extraObjects :: "ptr \<rightharpoonup> ExtraObjectData"
  currentThreadState :: ThreadState
  weakRefHeader :: 'h

definition heapAt :: "('h, 'b) runtime \<Rightarrow> ptr \<Rightarrow> ('h, 'b) heapObject option" where
  "heapAt s p =
     (if p = nullptr \<or> length (heap s) < p then None else Some (heap s ! (p - 1)))"

text \<open>
  \<^verbatim>\<open>asRegularWeakReferenceImpl\<close>: the \<^verbatim>\<open>reinterpret_cast\<close>, defined only where the
  address holds a \<^verbatim>\<open>RegularWeakReferenceImpl\<close>.
\<close>

definition asRegularWeakReferenceImpl ::
  "('h, 'b) runtime \<Rightarrow> ptr \<Rightarrow> failure + 'h RegularWeakReferenceImpl" where
  "asRegularWeakReferenceImpl s weakRef =
     (case heapAt s weakRef of
        Some (WeakReferenceObject w) \<Rightarrow> Inr w
      | _ \<Rightarrow> Inl NotAWeakReference)"

subsection \<open>Accesses to referred fields\<close>

text \<open>
  The only field of a heap object that the file reads or writes is \<open>referred\<close>. Every
  function that touches it is embedded with the accesses it makes, in program order,
  next to its result (the functions named \<open>Traced\<close>); the function of the same name
  without the suffix is the traced one with the accesses dropped.
\<close>

datatype access = LoadReferred ptr | StoreReferred ptr ptr

definition dropAccesses :: "'e + 't \<times> 'a \<Rightarrow> 'e + 'a" where
  "dropAccesses x = (case x of Inl e \<Rightarrow> Inl e | Inr (as, r) \<Rightarrow> Inr r)"

text \<open>The assignment \<^verbatim>\<open>asRegularWeakReferenceImpl(weakRef)->referred = v\<close>: one store.\<close>

definition storeReferred ::
  "('h, 'b) runtime \<Rightarrow> ptr \<Rightarrow> ptr \<Rightarrow> failure + access list \<times> ('h, 'b) runtime" where
  "storeReferred s weakRef v =
     (case asRegularWeakReferenceImpl s weakRef of
        Inl e \<Rightarrow> Inl e
      | Inr w \<Rightarrow>
          Inr ([StoreReferred weakRef v],
               s\<lparr>heap := (heap s)[weakRef - 1 := WeakReferenceObject (w\<lparr>referred := v\<rparr>)]\<rparr>))"

text \<open>The read of \<^verbatim>\<open>asRegularWeakReferenceImpl(weakRef)->referred\<close>: one load.\<close>

definition loadReferred ::
  "('h, 'b) runtime \<Rightarrow> ptr \<Rightarrow> failure + access list \<times> ptr" where
  "loadReferred s weakRef =
     (case asRegularWeakReferenceImpl s weakRef of
        Inl e \<Rightarrow> Inl e
      | Inr w \<Rightarrow> Inr ([LoadReferred weakRef], referred w))"

subsection \<open>Collaborators modelled from the specification\<close>

text \<open>
  Modelled from the spec: \<^verbatim>\<open>AssertThreadState(thread, expected)\<close> (ThreadState.hpp is
  missing). A violated precondition is fatal: the call does not return.
\<close>

definition AssertThreadState :: "('h, 'b) runtime \<Rightarrow> ThreadState \<Rightarrow> failure + unit" where
  "AssertThreadState s expected =
     (if currentThreadState s = expected then Inr () else Inl ThreadStateAssertionFailed)"

text \<open>
  Modelled from the spec: \<^verbatim>\<open>ExtraObjectData::GetOrInstall(object)\<close> (missing). It
  returns the object's side-table entry, attaching an empty one on first use. The
  reference it returns is the key \<open>object\<close> of the updated table.
\<close>

definition GetOrInstall :: "('h, 'b) runtime \<Rightarrow> ptr \<Rightarrow> ('h, 'b) runtime" where
  "GetOrInstall s object =
     (case extraObjects s object of
        Some e \<Rightarrow> s
      | None \<Rightarrow>
          s\<lparr>extraObjects := (extraObjects s)(object \<mapsto> \<lparr>regularWeakReferenceImpl = nullptr\<rparr>)\<rparr>)"

text \<open>
  Modelled from the spec: \<^verbatim>\<open>ExtraObjectData::GetRegularWeakReferenceImpl()\<close> (missing),
  the non-allocating read of the cached handle, or empty.
\<close>

definition GetRegularWeakReferenceImpl :: "('h, 'b) runtime \<Rightarrow> ptr \<Rightarrow> ptr" where
  "GetRegularWeakReferenceImpl s object =
     (case extraObjects s object of
        Some e \<Rightarrow> regularWeakReferenceImpl e
      | None \<Rightarrow> nullptr)"

text \<open>
  Modelled from the spec: \<^verbatim>\<open>ExtraObjectData::GetOrSetRegularWeakReferenceImpl(object,
  candidate)\<close> (missing), the first-writer-wins compare-and-set: if a handle is already
  installed for the object, the candidate is discarded and the installed handle
  returned; otherwise the candidate is installed and returned.
\<close>

definition GetOrSetRegularWeakReferenceImpl ::
  "('h, 'b) runtime \<Rightarrow> ptr \<Rightarrow> ptr \<Rightarrow> ptr \<times> ('h, 'b) runtime" where
  "GetOrSetRegularWeakReferenceImpl s object candidate =
     (if GetRegularWeakReferenceImpl s object \<noteq> nullptr
      then (GetRegularWeakReferenceImpl s object, s)
      else (candidate,
            s\<lparr>extraObjects :=
                (extraObjects s)(object \<mapsto> \<lparr>regularWeakReferenceImpl = candidate\<rparr>)\<rparr>))"

text \<open>
  Modelled from the spec: \<^verbatim>\<open>makeRegularWeakReferenceImpl(object, slot)\<close> (defined on
  the Kotlin side, missing): allocates a new weak reference with \<open>referred = object\<close>,
  which is one store to the \<open>referred\<close> field of the new object. Allocation failure is
  the allocator's own signal and is not modelled; the store is unbounded.
\<close>

definition makeRegularWeakReferenceImplTraced ::
  "('h, 'b) runtime \<Rightarrow> ptr \<Rightarrow> access list \<times> ptr \<times> ('h, 'b) runtime" where
  "makeRegularWeakReferenceImplTraced s object =
     ([StoreReferred (Suc (length (heap s))) object],
      Suc (length (heap s)),
      s\<lparr>heap := heap s @ [WeakReferenceObject \<lparr>header = weakRefHeader s, referred = object\<rparr>]\<rparr>)"

definition makeRegularWeakReferenceImpl ::
  "('h, 'b) runtime \<Rightarrow> ptr \<Rightarrow> ptr \<times> ('h, 'b) runtime" where
  "makeRegularWeakReferenceImpl s object = snd (makeRegularWeakReferenceImplTraced s object)"

text \<open>
  Modelled from the spec: \<^verbatim>\<open>mm::ReadHeapRefAtomic(location)\<close> (ObjectOps.hpp is
  missing), the atomic load of the pointer stored at \<open>location\<close>: one load. The only
  location the file passes is the \<open>referred\<close> field of a weak reference, so a location is
  the address of that weak reference.
\<close>

definition ReadHeapRefAtomicTraced ::
  "('h, 'b) runtime \<Rightarrow> ptr \<Rightarrow> failure + access list \<times> ptr" where
  "ReadHeapRefAtomicTraced s location = loadReferred s location"

definition ReadHeapRefAtomic :: "('h, 'b) runtime \<Rightarrow> ptr \<Rightarrow> failure + ptr" where
  "ReadHeapRefAtomic s location = dropAccesses (ReadHeapRefAtomicTraced s location)"

subsection \<open>The functions of Weak.cpp\<close>

text \<open>
  \<^verbatim>\<open>createRegularWeakReferenceImpl\<close>, lines 32 to 44: the assertion, the side-table
  entry, the early return of a cached handle, and otherwise the allocation of the
  candidate, its publication, and the return of what is published. The only access to
  a \<open>referred\<close> field is the store inside the allocation.
\<close>

definition createRegularWeakReferenceImplTraced ::
  "('h, 'b) runtime \<Rightarrow> ptr \<Rightarrow> failure + access list \<times> ptr \<times> ('h, 'b) runtime" where
  "createRegularWeakReferenceImplTraced s object =
     (case AssertThreadState s kRunnable of
        Inl e \<Rightarrow> Inl e
      | Inr _ \<Rightarrow>
          let s1 = GetOrInstall s object;
              weakRef = GetRegularWeakReferenceImpl s1 object
          in if weakRef \<noteq> nullptr then Inr ([], weakRef, s1)
             else
               let (as, weakRef, s2) = makeRegularWeakReferenceImplTraced s1 object;
                   (setWeakRef, s3) = GetOrSetRegularWeakReferenceImpl s2 object weakRef
               in Inr (as, setWeakRef, s3))"

definition createRegularWeakReferenceImpl ::
  "('h, 'b) runtime \<Rightarrow> ptr \<Rightarrow> failure + ptr \<times> ('h, 'b) runtime" where
  "createRegularWeakReferenceImpl s object =
     dropAccesses (createRegularWeakReferenceImplTraced s object)"

text \<open>
  Lines 40 to 43 on their own, as a function of the store they start in: \<open>create\<close> runs
  them when line 37 reads no handle (\<open>createRegularWeakReferenceImpl_eq\<close> below).
\<close>

definition createSlowPath :: "('h, 'b) runtime \<Rightarrow> ptr \<Rightarrow> ptr \<times> ('h, 'b) runtime" where
  "createSlowPath s object =
     (let (weakRef, s2) = makeRegularWeakReferenceImpl s object
      in GetOrSetRegularWeakReferenceImpl s2 object weakRef)"

text \<open>\<^verbatim>\<open>disposeRegularWeakReferenceImpl\<close>, line 47: the store of \<^verbatim>\<open>nullptr\<close>, with no test.\<close>

definition disposeRegularWeakReferenceImplTraced ::
  "('h, 'b) runtime \<Rightarrow> ptr \<Rightarrow> failure + access list \<times> ('h, 'b) runtime" where
  "disposeRegularWeakReferenceImplTraced s weakRef = storeReferred s weakRef nullptr"

definition disposeRegularWeakReferenceImpl ::
  "('h, 'b) runtime \<Rightarrow> ptr \<Rightarrow> failure + ('h, 'b) runtime" where
  "disposeRegularWeakReferenceImpl s weakRef =
     dropAccesses (disposeRegularWeakReferenceImplTraced s weakRef)"

text \<open>
  \<^verbatim>\<open>derefRegularWeakReferenceImpl\<close>, lines 51 to 52: the location of the field, handed
  to \<^verbatim>\<open>ReadHeapRefAtomic\<close>.
\<close>

definition derefRegularWeakReferenceImplTraced ::
  "('h, 'b) runtime \<Rightarrow> ptr \<Rightarrow> failure + access list \<times> ptr" where
  "derefRegularWeakReferenceImplTraced s weakRef = ReadHeapRefAtomicTraced s weakRef"

definition derefRegularWeakReferenceImpl :: "('h, 'b) runtime \<Rightarrow> ptr \<Rightarrow> failure + ptr" where
  "derefRegularWeakReferenceImpl s weakRef =
     dropAccesses (derefRegularWeakReferenceImplTraced s weakRef)"

text \<open>\<^verbatim>\<open>regularWeakReferenceImplBaseObjectUnsafe\<close>, line 56: the plain read of the field.\<close>

definition regularWeakReferenceImplBaseObjectUnsafeTraced ::
  "('h, 'b) runtime \<Rightarrow> ptr \<Rightarrow> failure + access list \<times> ptr" where
  "regularWeakReferenceImplBaseObjectUnsafeTraced s weakRef = loadReferred s weakRef"

definition regularWeakReferenceImplBaseObjectUnsafe ::
  "('h, 'b) runtime \<Rightarrow> ptr \<Rightarrow> failure + ptr" where
  "regularWeakReferenceImplBaseObjectUnsafe s weakRef =
     dropAccesses (regularWeakReferenceImplBaseObjectUnsafeTraced s weakRef)"

subsection \<open>Sequences of calls\<close>

text \<open>
  The callers are outside the file. A call sequence is a list of calls of the four entry
  points, run from left to right on the store; it stops at the first call that does
  not return normally. Each call yields a pointer: the handle for \<open>Create\<close>, the value
  read for \<open>Deref\<close> and \<open>PeekUnsafe\<close>, and \<^verbatim>\<open>nullptr\<close> for the \<^verbatim>\<open>void\<close> \<open>Dispose\<close>.
\<close>

datatype operation = Create ptr | Dispose ptr | Deref ptr | PeekUnsafe ptr

fun perform ::
  "operation \<Rightarrow> ('h, 'b) runtime \<Rightarrow> failure + ptr \<times> ('h, 'b) runtime" where
  "perform (Create object) s = createRegularWeakReferenceImpl s object"
| "perform (Dispose weakRef) s =
     (case disposeRegularWeakReferenceImpl s weakRef of
        Inl e \<Rightarrow> Inl e
      | Inr s' \<Rightarrow> Inr (nullptr, s'))"
| "perform (Deref weakRef) s =
     (case derefRegularWeakReferenceImpl s weakRef of
        Inl e \<Rightarrow> Inl e
      | Inr r \<Rightarrow> Inr (r, s))"
| "perform (PeekUnsafe weakRef) s =
     (case regularWeakReferenceImplBaseObjectUnsafe s weakRef of
        Inl e \<Rightarrow> Inl e
      | Inr r \<Rightarrow> Inr (r, s))"

fun performAll ::
  "operation list \<Rightarrow> ('h, 'b) runtime \<Rightarrow> failure + ptr list \<times> ('h, 'b) runtime" where
  "performAll [] s = Inr ([], s)"
| "performAll (c # cs) s =
     (case perform c s of
        Inl e \<Rightarrow> Inl e
      | Inr (r, s1) \<Rightarrow>
          (case performAll cs s1 of
             Inl e \<Rightarrow> Inl e
           | Inr (rs, s2) \<Rightarrow> Inr (r # rs, s2)))"

text \<open>
  The same sequences with the accesses: each call yields the list of accesses it made,
  so a run yields one list for each call.
\<close>

fun performTraced ::
  "operation \<Rightarrow> ('h, 'b) runtime \<Rightarrow> failure + access list \<times> ptr \<times> ('h, 'b) runtime" where
  "performTraced (Create object) s = createRegularWeakReferenceImplTraced s object"
| "performTraced (Dispose weakRef) s =
     (case disposeRegularWeakReferenceImplTraced s weakRef of
        Inl e \<Rightarrow> Inl e
      | Inr (as, s') \<Rightarrow> Inr (as, nullptr, s'))"
| "performTraced (Deref weakRef) s =
     (case derefRegularWeakReferenceImplTraced s weakRef of
        Inl e \<Rightarrow> Inl e
      | Inr (as, r) \<Rightarrow> Inr (as, r, s))"
| "performTraced (PeekUnsafe weakRef) s =
     (case regularWeakReferenceImplBaseObjectUnsafeTraced s weakRef of
        Inl e \<Rightarrow> Inl e
      | Inr (as, r) \<Rightarrow> Inr (as, r, s))"

fun performAllTraced ::
  "operation list \<Rightarrow> ('h, 'b) runtime \<Rightarrow>
   failure + access list list \<times> ptr list \<times> ('h, 'b) runtime" where
  "performAllTraced [] s = Inr ([], [], s)"
| "performAllTraced (c # cs) s =
     (case performTraced c s of
        Inl e \<Rightarrow> Inl e
      | Inr (as, r, s1) \<Rightarrow>
          (case performAllTraced cs s1 of
             Inl e \<Rightarrow> Inl e
           | Inr (bs, rs, s2) \<Rightarrow> Inr (as # bs, r # rs, s2)))"

fun isStoreTo :: "ptr \<Rightarrow> access \<Rightarrow> bool" where
  "isStoreTo p (StoreReferred q v) = (p = q)"
| "isStoreTo p (LoadReferred q) = False"

text \<open>
  The handle cached for an object, if there is one, is a weak reference that still
  refers to the object: it has not been cleared.
\<close>

definition cachedHandleIntact :: "('h, 'b) runtime \<Rightarrow> ptr \<Rightarrow> bool" where
  "cachedHandleIntact s object =
     (GetRegularWeakReferenceImpl s object = nullptr \<or>
      (case asRegularWeakReferenceImpl s (GetRegularWeakReferenceImpl s object) of
         Inl e \<Rightarrow> False
       | Inr w \<Rightarrow> referred w = object))"

text \<open>
  Small stores for concrete runs: one plain object at address 1 and a runnable current
  thread; first with no side-table entry, then with the weak reference of the object
  at address 2, live and cleared.
\<close>

definition exampleRuntime :: "(nat, nat) runtime" where
  "exampleRuntime =
     \<lparr>heap = [PlainObject 10 42], extraObjects = Map.empty,
      currentThreadState = kRunnable, weakRefHeader = 20\<rparr>"

definition exampleLive :: "(nat, nat) runtime" where
  "exampleLive =
     \<lparr>heap = [PlainObject 10 42, WeakReferenceObject \<lparr>header = 20, referred = 1\<rparr>],
      extraObjects = [1 \<mapsto> \<lparr>regularWeakReferenceImpl = 2\<rparr>],
      currentThreadState = kRunnable, weakRefHeader = 20\<rparr>"

definition exampleCleared :: "(nat, nat) runtime" where
  "exampleCleared =
     \<lparr>heap = [PlainObject 10 42, WeakReferenceObject \<lparr>header = 20, referred = nullptr\<rparr>],
      extraObjects = [1 \<mapsto> \<lparr>regularWeakReferenceImpl = 2\<rparr>],
      currentThreadState = kRunnable, weakRefHeader = 20\<rparr>"

subsection \<open>Interleaved calls\<close>

text \<open>
  Several threads may be inside the entry points at once. A thread's call advances in
  steps, each one access to the shared store: for \<open>create\<close>, lines 33 to 36 (the
  assertion and \<^verbatim>\<open>GetOrInstall\<close>), line 37 (the read of the cached handle), lines 40 to
  41 (the allocation) and line 42 (the publication); the other three entry points are
  one step each. \<open>progress\<close> is where a thread stands: about to make a call, between two
  steps of \<open>create\<close> (with the object, and the candidate once allocated), or returned
  with its result.
\<close>

datatype progress =
    Calling operation
  | Installed ptr
  | Allocating ptr
  | Publishing ptr ptr
  | Returned operation ptr

fun stepCall ::
  "progress \<Rightarrow> ('h, 'b) runtime \<Rightarrow> failure + progress \<times> ('h, 'b) runtime" where
  "stepCall (Calling (Create object)) s =
     (case AssertThreadState s kRunnable of
        Inl e \<Rightarrow> Inl e
      | Inr _ \<Rightarrow> Inr (Installed object, GetOrInstall s object))"
| "stepCall (Installed object) s =
     (let weakRef = GetRegularWeakReferenceImpl s object
      in if weakRef \<noteq> nullptr then Inr (Returned (Create object) weakRef, s)
         else Inr (Allocating object, s))"
| "stepCall (Allocating object) s =
     (let (weakRef, s2) = makeRegularWeakReferenceImpl s object
      in Inr (Publishing object weakRef, s2))"
| "stepCall (Publishing object weakRef) s =
     (let (setWeakRef, s3) = GetOrSetRegularWeakReferenceImpl s object weakRef
      in Inr (Returned (Create object) setWeakRef, s3))"
| "stepCall (Calling c) s =
     (case perform c s of
        Inl e \<Rightarrow> Inl e
      | Inr (r, s') \<Rightarrow> Inr (Returned c r, s'))"
| "stepCall (Returned c r) s = Inr (Returned c r, s)"

text \<open>
  A configuration is the shared store and, for each thread, its thread state and its
  progress. The thread that runs is the current thread of the store for that step. A
  schedule is the list of thread indices in the order they step; a failed assertion ends
  the run.
\<close>

type_synonym ('h, 'b) configuration = "('h, 'b) runtime \<times> (ThreadState \<times> progress) list"

definition stepThread ::
  "nat \<Rightarrow> ('h, 'b) configuration \<Rightarrow> failure + ('h, 'b) configuration" where
  "stepThread i cfg =
     (let (s, ts) = cfg
      in if length ts \<le> i then Inr cfg
         else
           (case stepCall (snd (ts ! i)) (s\<lparr>currentThreadState := fst (ts ! i)\<rparr>) of
              Inl e \<Rightarrow> Inl e
            | Inr (p, s') \<Rightarrow> Inr (s', ts[i := (fst (ts ! i), p)])))"

fun runSchedule ::
  "nat list \<Rightarrow> ('h, 'b) configuration \<Rightarrow> failure + ('h, 'b) configuration" where
  "runSchedule [] cfg = Inr cfg"
| "runSchedule (i # sched) cfg =
     (case stepThread i cfg of
        Inl e \<Rightarrow> Inl e
      | Inr cfg' \<Rightarrow> runSchedule sched cfg')"

text \<open>
  A call that no other thread interrupts: \<open>n\<close> steps of one thread on the store.
\<close>

fun runCall ::
  "nat \<Rightarrow> progress \<Rightarrow> ('h, 'b) runtime \<Rightarrow> failure + progress \<times> ('h, 'b) runtime" where
  "runCall 0 p s = Inr (p, s)"
| "runCall (Suc n) p s =
     (case stepCall p s of
        Inl e \<Rightarrow> Inl e
      | Inr (p', s') \<Rightarrow> runCall n p' s')"

text \<open>
  What holds of every thread along a run: a candidate is never \<^verbatim>\<open>nullptr\<close>, and a handle
  that \<open>create\<close> returned is the one the side table holds for the object.
\<close>

fun isCalling :: "progress \<Rightarrow> bool" where
  "isCalling (Calling c) = True"
| "isCalling p = False"

fun progressOk :: "('h, 'b) runtime \<Rightarrow> progress \<Rightarrow> bool" where
  "progressOk s (Publishing object weakRef) = (weakRef \<noteq> nullptr)"
| "progressOk s (Returned (Create object) h) =
     (h \<noteq> nullptr \<and> GetRegularWeakReferenceImpl s object = h)"
| "progressOk s p = True"

text \<open>Two runnable threads, both about to create the weak reference of the object at 1.\<close>

definition racingThreads :: "(ThreadState \<times> progress) list" where
  "racingThreads = [(kRunnable, Calling (Create 1)), (kRunnable, Calling (Create 1))]"

text \<open>
  The store after the schedule \<open>[0, 0, 1, 1, 0, 1, 1]\<close> of the two threads: both have
  allocated a candidate (2 and 3), the second thread has published 3 and returned, the
  first is about to publish 2.
\<close>

definition exampleRaced :: "(nat, nat) runtime" where
  "exampleRaced =
     \<lparr>heap = [PlainObject 10 42, WeakReferenceObject \<lparr>header = 20, referred = 1\<rparr>,
              WeakReferenceObject \<lparr>header = 20, referred = 1\<rparr>],
      extraObjects = [1 \<mapsto> \<lparr>regularWeakReferenceImpl = 3\<rparr>],
      currentThreadState = kRunnable, weakRefHeader = 20\<rparr>"

section \<open>Properties\<close>

subsection \<open>The functions with their accesses dropped\<close>

lemma makeRegularWeakReferenceImpl_eq:
  "makeRegularWeakReferenceImpl s object =
     (Suc (length (heap s)),
      s\<lparr>heap := heap s @ [WeakReferenceObject \<lparr>header = weakRefHeader s, referred = object\<rparr>]\<rparr>)"
  by (simp add: makeRegularWeakReferenceImpl_def makeRegularWeakReferenceImplTraced_def)

lemma ReadHeapRefAtomic_eq:
  "ReadHeapRefAtomic s location =
     (case asRegularWeakReferenceImpl s location of
        Inl e \<Rightarrow> Inl e
      | Inr w \<Rightarrow> Inr (referred w))"
  by (simp add: ReadHeapRefAtomic_def ReadHeapRefAtomicTraced_def loadReferred_def
      dropAccesses_def split: sum.splits)

lemma createRegularWeakReferenceImpl_eq:
  "createRegularWeakReferenceImpl s object =
     (case AssertThreadState s kRunnable of
        Inl e \<Rightarrow> Inl e
      | Inr _ \<Rightarrow>
          let s1 = GetOrInstall s object;
              weakRef = GetRegularWeakReferenceImpl s1 object
          in if weakRef \<noteq> nullptr then Inr (weakRef, s1)
             else Inr (createSlowPath s1 object))"
  by (simp add: createRegularWeakReferenceImpl_def createRegularWeakReferenceImplTraced_def
      createSlowPath_def makeRegularWeakReferenceImpl_def dropAccesses_def Let_def
      split: sum.splits prod.splits)

lemma disposeRegularWeakReferenceImpl_eq:
  "disposeRegularWeakReferenceImpl s weakRef =
     (case asRegularWeakReferenceImpl s weakRef of
        Inl e \<Rightarrow> Inl e
      | Inr w \<Rightarrow>
          Inr (s\<lparr>heap := (heap s)[weakRef - 1 := WeakReferenceObject (w\<lparr>referred := nullptr\<rparr>)]\<rparr>))"
  by (simp add: disposeRegularWeakReferenceImpl_def disposeRegularWeakReferenceImplTraced_def
      storeReferred_def dropAccesses_def split: sum.splits)

lemma derefRegularWeakReferenceImpl_eq:
  "derefRegularWeakReferenceImpl s weakRef = ReadHeapRefAtomic s weakRef"
  by (simp add: derefRegularWeakReferenceImpl_def derefRegularWeakReferenceImplTraced_def
      ReadHeapRefAtomic_def)

lemma regularWeakReferenceImplBaseObjectUnsafe_eq:
  "regularWeakReferenceImplBaseObjectUnsafe s weakRef =
     (case asRegularWeakReferenceImpl s weakRef of
        Inl e \<Rightarrow> Inl e
      | Inr w \<Rightarrow> Inr (referred w))"
  by (simp add: regularWeakReferenceImplBaseObjectUnsafe_def
      regularWeakReferenceImplBaseObjectUnsafeTraced_def loadReferred_def dropAccesses_def
      split: sum.splits)

subsection \<open>Facts about the store\<close>

lemma heapAt_append:
  "heapAt (s\<lparr>heap := heap s @ [x]\<rparr>) p =
     (if p = Suc (length (heap s)) then Some x else heapAt s p)"
  by (auto simp: heapAt_def nth_append)

lemma heapAt_update:
  "heapAt s q = Some y \<Longrightarrow>
   heapAt (s\<lparr>heap := (heap s)[q - Suc 0 := x]\<rparr>) p = (if p = q then Some x else heapAt s p)"
  by (auto simp: heapAt_def nth_list_update split: if_splits)

lemma heapAt_extraObjects_update [simp]:
  "heapAt (s\<lparr>extraObjects := t\<rparr>) p = heapAt s p"
  by (simp add: heapAt_def)

lemma asRegularWeakReferenceImpl_Inr:
  "asRegularWeakReferenceImpl s p = Inr w \<longleftrightarrow> heapAt s p = Some (WeakReferenceObject w)"
  by (simp add: asRegularWeakReferenceImpl_def split: option.splits heapObject.splits)

lemma asRegularWeakReferenceImpl_Inl:
  "asRegularWeakReferenceImpl s p = Inl e \<Longrightarrow> e = NotAWeakReference"
  by (simp add: asRegularWeakReferenceImpl_def split: option.splits heapObject.splits)

lemma heapAt_Some_bounds: "heapAt s p = Some x \<Longrightarrow> 0 < p \<and> p \<le> length (heap s)"
  by (simp add: heapAt_def split: if_splits)

subsection \<open>Facts about the side table\<close>

lemma GetRegularWeakReferenceImpl_GetOrInstall [simp]:
  "GetRegularWeakReferenceImpl (GetOrInstall s object) object' =
   GetRegularWeakReferenceImpl s object'"
  by (simp add: GetRegularWeakReferenceImpl_def GetOrInstall_def split: option.splits)

lemma heap_GetOrInstall [simp]: "heap (GetOrInstall s object) = heap s"
  by (simp add: GetOrInstall_def split: option.splits)

lemma weakRefHeader_GetOrInstall [simp]:
  "weakRefHeader (GetOrInstall s object) = weakRefHeader s"
  by (simp add: GetOrInstall_def split: option.splits)

lemma currentThreadState_GetOrInstall [simp]:
  "currentThreadState (GetOrInstall s object) = currentThreadState s"
  by (simp add: GetOrInstall_def split: option.splits)

lemma heapAt_GetOrInstall [simp]: "heapAt (GetOrInstall s object) p = heapAt s p"
  by (simp add: heapAt_def)

lemma GetOrInstall_installed:
  "extraObjects s object = Some e \<Longrightarrow> GetOrInstall s object = s"
  by (simp add: GetOrInstall_def)

lemma cached_installed:
  "GetRegularWeakReferenceImpl s object \<noteq> nullptr \<Longrightarrow> GetOrInstall s object = s"
  by (simp add: GetOrInstall_def GetRegularWeakReferenceImpl_def split: option.splits)

subsection \<open>The slow path\<close>

lemma createSlowPath_heap:
  "createSlowPath s object = (h, s') \<Longrightarrow>
   heap s' = heap s @ [WeakReferenceObject \<lparr>header = weakRefHeader s, referred = object\<rparr>]"
  by (auto simp: createSlowPath_def makeRegularWeakReferenceImpl_eq
      GetOrSetRegularWeakReferenceImpl_def split: if_splits)

lemma createSlowPath_cached:
  "createSlowPath s object = (h, s') \<Longrightarrow>
   GetRegularWeakReferenceImpl s' object' =
     (if object' = object then h else GetRegularWeakReferenceImpl s object')"
  by (auto simp: createSlowPath_def makeRegularWeakReferenceImpl_eq
      GetOrSetRegularWeakReferenceImpl_def GetRegularWeakReferenceImpl_def split: if_splits)

lemma createSlowPath_result:
  "createSlowPath s object = (h, s') \<Longrightarrow>
   h = (if GetRegularWeakReferenceImpl s object \<noteq> nullptr
        then GetRegularWeakReferenceImpl s object else Suc (length (heap s)))"
  by (auto simp: createSlowPath_def makeRegularWeakReferenceImpl_eq
      GetOrSetRegularWeakReferenceImpl_def GetRegularWeakReferenceImpl_def split: if_splits)

lemma createSlowPath_eq:
  "createSlowPath s object =
     GetOrSetRegularWeakReferenceImpl
       (s\<lparr>heap := heap s @ [WeakReferenceObject \<lparr>header = weakRefHeader s, referred = object\<rparr>]\<rparr>)
       object (Suc (length (heap s)))"
  by (simp add: createSlowPath_def makeRegularWeakReferenceImpl_eq)

lemma GetRegularWeakReferenceImpl_heap_update [simp]:
  "GetRegularWeakReferenceImpl (s\<lparr>heap := x\<rparr>) object = GetRegularWeakReferenceImpl s object"
  by (simp add: GetRegularWeakReferenceImpl_def)

lemma createSlowPath_extraObjects:
  assumes "createSlowPath s object = (h, s')"
  shows "extraObjects s' =
     (if GetRegularWeakReferenceImpl s object \<noteq> nullptr then extraObjects s
      else (extraObjects s)(object \<mapsto> \<lparr>regularWeakReferenceImpl = Suc (length (heap s))\<rparr>))"
proof (cases "GetRegularWeakReferenceImpl s object = nullptr")
  case True
  with assms show ?thesis
    by (simp add: createSlowPath_eq GetOrSetRegularWeakReferenceImpl_def) auto
next
  case False
  with assms show ?thesis
    by (simp add: createSlowPath_eq GetOrSetRegularWeakReferenceImpl_def) auto
qed

subsection \<open>create: fast and slow path\<close>

lemma create_Inr:
  "createRegularWeakReferenceImpl s object = Inr (h, s') \<longleftrightarrow>
   currentThreadState s = kRunnable \<and>
   (if GetRegularWeakReferenceImpl s object \<noteq> nullptr
    then h = GetRegularWeakReferenceImpl s object \<and> s' = GetOrInstall s object
    else createSlowPath (GetOrInstall s object) object = (h, s'))"
  unfolding createRegularWeakReferenceImpl_eq AssertThreadState_def Let_def
  by (simp split: if_splits) blast

lemma create_cases:
  assumes "createRegularWeakReferenceImpl s object = Inr (h, s')"
  obtains (fast) "GetRegularWeakReferenceImpl s object \<noteq> nullptr"
      "h = GetRegularWeakReferenceImpl s object" "s' = s"
    | (slow) "GetRegularWeakReferenceImpl s object = nullptr"
      "createSlowPath (GetOrInstall s object) object = (h, s')"
proof (cases "GetRegularWeakReferenceImpl s object = nullptr")
  case True
  with assms have "createSlowPath (GetOrInstall s object) object = (h, s')"
    by (simp add: create_Inr)
  with True show ?thesis by (rule slow)
next
  case False
  with assms have "h = GetRegularWeakReferenceImpl s object" "s' = GetOrInstall s object"
    by (simp_all add: create_Inr)
  with False show ?thesis by (simp add: fast cached_installed)
qed

lemma create_cached:
  assumes "createRegularWeakReferenceImpl s object = Inr (h, s')"
  shows "GetRegularWeakReferenceImpl s' object' =
     (if object' = object then h else GetRegularWeakReferenceImpl s object')"
  using assms
proof (cases rule: create_cases)
  case fast
  then show ?thesis by simp
next
  case slow
  from createSlowPath_cached [OF slow(2)] show ?thesis by simp
qed

lemma create_nonnull:
  assumes "createRegularWeakReferenceImpl s object = Inr (h, s')"
  shows "h \<noteq> nullptr"
  using assms
proof (cases rule: create_cases)
  case fast
  then show ?thesis by simp
next
  case slow
  from createSlowPath_result [OF slow(2)] slow(1) show ?thesis by simp
qed

lemma create_heap:
  assumes "createRegularWeakReferenceImpl s object = Inr (h, s')"
  shows "heap s' = heap s \<or>
     (GetRegularWeakReferenceImpl s object = nullptr \<and> h = Suc (length (heap s)) \<and>
      heap s' = heap s @ [WeakReferenceObject \<lparr>header = weakRefHeader s, referred = object\<rparr>])"
  using assms
proof (cases rule: create_cases)
  case fast
  then show ?thesis by simp
next
  case slow
  from createSlowPath_heap [OF slow(2)] createSlowPath_result [OF slow(2)] slow(1)
  show ?thesis by simp
qed

subsection \<open>dispose: one field of one cell\<close>

lemma dispose_Inr:
  "disposeRegularWeakReferenceImpl s weakRef = Inr s' \<longleftrightarrow>
   (\<exists>w. heapAt s weakRef = Some (WeakReferenceObject w) \<and>
        s' = s\<lparr>heap := (heap s)[weakRef - 1 := WeakReferenceObject (w\<lparr>referred := nullptr\<rparr>)]\<rparr>)"
  by (auto simp: disposeRegularWeakReferenceImpl_eq asRegularWeakReferenceImpl_def
      split: option.splits heapObject.splits)

lemma dispose_heapAt:
  assumes "disposeRegularWeakReferenceImpl s weakRef = Inr s'"
    and "heapAt s weakRef = Some (WeakReferenceObject w)"
  shows "heapAt s' p =
     (if p = weakRef then Some (WeakReferenceObject (w\<lparr>referred := nullptr\<rparr>)) else heapAt s p)"
  using assms by (auto simp: dispose_Inr heapAt_update)

lemma dispose_cached:
  "disposeRegularWeakReferenceImpl s weakRef = Inr s' \<Longrightarrow>
   GetRegularWeakReferenceImpl s' object = GetRegularWeakReferenceImpl s object"
  by (auto simp: dispose_Inr GetRegularWeakReferenceImpl_def)

subsection \<open>deref and unsafe peek\<close>

lemma deref_Inr:
  "derefRegularWeakReferenceImpl s p = Inr v \<longleftrightarrow>
   (\<exists>w. heapAt s p = Some (WeakReferenceObject w) \<and> referred w = v)"
  by (auto simp: derefRegularWeakReferenceImpl_eq ReadHeapRefAtomic_eq
      asRegularWeakReferenceImpl_def split: option.splits heapObject.splits)

lemma peek_eq_deref:
  "regularWeakReferenceImplBaseObjectUnsafe s p = derefRegularWeakReferenceImpl s p"
  by (simp add: regularWeakReferenceImplBaseObjectUnsafe_eq derefRegularWeakReferenceImpl_eq
      ReadHeapRefAtomic_eq)

lemma create_heapAt:
  assumes "createRegularWeakReferenceImpl s object = Inr (h, s')"
    and "heapAt s p = Some x"
  shows "heapAt s' p = Some x"
proof -
  from assms(2) have "p \<noteq> Suc (length (heap s))"
    by (auto dest: heapAt_Some_bounds)
  with create_heap [OF assms(1)] assms(2) show ?thesis
    by (auto simp: heapAt_def nth_append split: if_splits)
qed

lemma create_deref:
  assumes "createRegularWeakReferenceImpl s object = Inr (h, s')"
    and "derefRegularWeakReferenceImpl s p = Inr v"
  shows "derefRegularWeakReferenceImpl s' p = Inr v"
  using assms by (auto simp: deref_Inr dest: create_heapAt)

lemma dispose_deref:
  assumes "disposeRegularWeakReferenceImpl s weakRef = Inr s'"
    and "derefRegularWeakReferenceImpl s p = Inr v"
  shows "derefRegularWeakReferenceImpl s' p = Inr (if p = weakRef then nullptr else v)"
proof -
  from assms(1) obtain w where w: "heapAt s weakRef = Some (WeakReferenceObject w)"
    by (auto simp: dispose_Inr)
  from dispose_heapAt [OF assms(1) w] assms(2) w show ?thesis
    by (auto simp: deref_Inr)
qed

lemma perform_deref:
  assumes "perform c s = Inr (r, s')"
    and "derefRegularWeakReferenceImpl s p = Inr v"
  shows "derefRegularWeakReferenceImpl s' p = Inr (if c = Dispose p then nullptr else v)"
proof (cases c)
  case (Create object)
  with assms show ?thesis by (auto dest: create_deref)
next
  case (Dispose weakRef)
  with assms show ?thesis by (auto split: sum.splits dest: dispose_deref)
next
  case (Deref weakRef)
  with assms show ?thesis by (auto split: sum.splits)
next
  case (PeekUnsafe weakRef)
  with assms show ?thesis by (auto split: sum.splits)
qed

subsection \<open>Call sequences\<close>

lemma performAll_ConsE:
  assumes "performAll (c # cs) s = Inr (rs, s')"
  obtains r s1 rs' where "perform c s = Inr (r, s1)" "performAll cs s1 = Inr (rs', s')"
    "rs = r # rs'"
  using assms by (auto split: sum.splits)

lemma performAll_length: "performAll cs s = Inr (rs, s') \<Longrightarrow> length rs = length cs"
proof (induction cs arbitrary: s rs)
  case Nil
  then show ?case by simp
next
  case (Cons c cs)
  from Cons.prems obtain r s1 rs' where "performAll cs s1 = Inr (rs', s')" "rs = r # rs'"
    by (rule performAll_ConsE)
  with Cons.IH [of s1 rs'] show ?case by simp
qed

lemma performAll_deref:
  assumes "performAll cs s = Inr (rs, s')"
    and "derefRegularWeakReferenceImpl s p = Inr v"
  shows "derefRegularWeakReferenceImpl s' p = Inr (if Dispose p \<in> set cs then nullptr else v)"
  using assms
proof (induction cs arbitrary: s rs v)
  case Nil
  then show ?case by simp
next
  case (Cons c cs)
  from Cons.prems(1) obtain r s1 rs' where
    step: "perform c s = Inr (r, s1)" and rest: "performAll cs s1 = Inr (rs', s')"
    by (rule performAll_ConsE)
  from perform_deref [OF step Cons.prems(2)]
  have "derefRegularWeakReferenceImpl s1 p = Inr (if c = Dispose p then nullptr else v)" .
  from Cons.IH [OF rest this] show ?case by auto
qed

lemma performAll_nth:
  assumes "performAll cs s = Inr (rs, s')" and "i < length cs"
  shows "\<exists>t t'. performAll (take i cs) s = Inr (take i rs, t) \<and>
     perform (cs ! i) t = Inr (rs ! i, t') \<and>
     performAll (drop (Suc i) cs) t' = Inr (drop (Suc i) rs, s')"
  using assms
proof (induction cs arbitrary: s rs i)
  case Nil
  then show ?case by simp
next
  case (Cons c cs)
  from Cons.prems(1) obtain r s1 rs' where
    step: "perform c s = Inr (r, s1)" and rest: "performAll cs s1 = Inr (rs', s')"
    and rs: "rs = r # rs'"
    by (rule performAll_ConsE)
  show ?case
  proof (cases i)
    case 0
    with step rest rs show ?thesis by simp
  next
    case (Suc j)
    with Cons.prems(2) have "j < length cs" by simp
    from Cons.IH [OF rest this] Suc step rs show ?thesis by auto
  qed
qed

lemma perform_Deref_result:
  "perform (Deref p) s = Inr (r, s') \<Longrightarrow> derefRegularWeakReferenceImpl s p = Inr r \<and> s' = s"
  by (auto split: sum.splits)

subsection \<open>The cached handle along a call sequence\<close>

lemma perform_cached_stable:
  assumes "perform c s = Inr (r, s')"
    and "GetRegularWeakReferenceImpl s object \<noteq> nullptr"
  shows "GetRegularWeakReferenceImpl s' object = GetRegularWeakReferenceImpl s object"
proof (cases c)
  case (Create object')
  with assms(1) have cr: "createRegularWeakReferenceImpl s object' = Inr (r, s')" by simp
  show ?thesis
  proof (cases "object' = object")
    case True
    with cr assms(2) show ?thesis by (auto elim: create_cases)
  next
    case False
    with create_cached [OF cr, of object] show ?thesis by simp
  qed
next
  case (Dispose weakRef)
  with assms(1) show ?thesis by (auto split: sum.splits dest: dispose_cached)
next
  case (Deref weakRef)
  with assms(1) show ?thesis by (auto split: sum.splits)
next
  case (PeekUnsafe weakRef)
  with assms(1) show ?thesis by (auto split: sum.splits)
qed

lemma performAll_cached_stable:
  assumes "performAll cs s = Inr (rs, s')"
    and "GetRegularWeakReferenceImpl s object \<noteq> nullptr"
  shows "GetRegularWeakReferenceImpl s' object = GetRegularWeakReferenceImpl s object"
  using assms
proof (induction cs arbitrary: s rs)
  case Nil
  then show ?case by simp
next
  case (Cons c cs)
  from Cons.prems(1) obtain r s1 rs' where
    step: "perform c s = Inr (r, s1)" and rest: "performAll cs s1 = Inr (rs', s')"
    by (rule performAll_ConsE)
  from perform_cached_stable [OF step Cons.prems(2)] Cons.prems(2)
  have "GetRegularWeakReferenceImpl s1 object = GetRegularWeakReferenceImpl s object"
    and "GetRegularWeakReferenceImpl s1 object \<noteq> nullptr" by simp_all
  with Cons.IH [OF rest] show ?case by simp
qed

lemma performAll_Create_result:
  assumes "performAll cs s = Inr (rs, s')" and "i < length cs" and "cs ! i = Create object"
  shows "rs ! i = GetRegularWeakReferenceImpl s' object \<and> rs ! i \<noteq> nullptr"
proof -
  from performAll_nth [OF assms(1,2)] assms(3) obtain t t' where
    step: "perform (Create object) t = Inr (rs ! i, t')"
    and post: "performAll (drop (Suc i) cs) t' = Inr (drop (Suc i) rs, s')"
    by auto
  from step have cr: "createRegularWeakReferenceImpl t object = Inr (rs ! i, t')" by simp
  from create_cached [OF cr, of object] create_nonnull [OF cr]
  have "GetRegularWeakReferenceImpl t' object = rs ! i" "rs ! i \<noteq> nullptr" by simp_all
  with performAll_cached_stable [OF post, of object] show ?thesis by simp
qed

subsection \<open>A handle that is not disposed keeps its target\<close>

lemma create_fresh_deref:
  assumes "createRegularWeakReferenceImpl s object = Inr (h, s')"
    and "GetRegularWeakReferenceImpl s object = nullptr"
  shows "h = Suc (length (heap s)) \<and> derefRegularWeakReferenceImpl s' h = Inr object"
  using assms(1)
proof (cases rule: create_cases)
  case fast
  with assms(2) show ?thesis by simp
next
  case slow
  from createSlowPath_heap [OF slow(2)] createSlowPath_result [OF slow(2)] slow(1)
  have "h = Suc (length (heap s))"
    and "heap s' = heap s @ [WeakReferenceObject \<lparr>header = weakRefHeader s, referred = object\<rparr>]"
    by simp_all
  then show ?thesis by (simp add: deref_Inr heapAt_def)
qed

lemma deref_Inr_bound:
  "derefRegularWeakReferenceImpl s p = Inr v \<Longrightarrow> p \<le> length (heap s)"
  by (auto simp: deref_Inr dest: heapAt_Some_bounds)

lemma perform_keeps_target:
  assumes "perform c s = Inr (r, s')"
    and "c \<noteq> Dispose h"
    and "GetRegularWeakReferenceImpl s object = h \<longrightarrow>
         derefRegularWeakReferenceImpl s h = Inr object"
    and "h \<noteq> nullptr"
  shows "GetRegularWeakReferenceImpl s' object = h \<longrightarrow>
         derefRegularWeakReferenceImpl s' h = Inr object"
proof
  assume cached': "GetRegularWeakReferenceImpl s' object = h"
  show "derefRegularWeakReferenceImpl s' h = Inr object"
  proof (cases "GetRegularWeakReferenceImpl s object = nullptr")
    case False
    from perform_cached_stable [OF assms(1) False] cached' assms(3)
    have "derefRegularWeakReferenceImpl s h = Inr object" by simp
    from perform_deref [OF assms(1) this] assms(2) show ?thesis by simp
  next
    case True
    with cached' assms(4) have changed:
      "GetRegularWeakReferenceImpl s' object \<noteq> GetRegularWeakReferenceImpl s object" by simp
    show ?thesis
    proof (cases c)
      case (Create object')
      with assms(1) have cr: "createRegularWeakReferenceImpl s object' = Inr (r, s')" by simp
      from create_cached [OF cr, of object] changed have "object' = object" "r = h"
        using cached' by (auto split: if_splits)
      with cr True create_fresh_deref [of s object h s'] show ?thesis by blast
    next
      case (Dispose weakRef)
      with assms(1) changed show ?thesis by (auto split: sum.splits dest: dispose_cached)
    next
      case (Deref weakRef)
      with assms(1) changed show ?thesis by (auto split: sum.splits)
    next
      case (PeekUnsafe weakRef)
      with assms(1) changed show ?thesis by (auto split: sum.splits)
    qed
  qed
qed

lemma performAll_keeps_target:
  assumes "performAll cs s = Inr (rs, s')"
    and "Dispose h \<notin> set cs"
    and "GetRegularWeakReferenceImpl s object = h \<longrightarrow>
         derefRegularWeakReferenceImpl s h = Inr object"
    and "h \<noteq> nullptr"
  shows "GetRegularWeakReferenceImpl s' object = h \<longrightarrow>
         derefRegularWeakReferenceImpl s' h = Inr object"
  using assms
proof (induction cs arbitrary: s rs)
  case Nil
  then show ?case by simp
next
  case (Cons c cs)
  from Cons.prems(1) obtain r s1 rs' where
    step: "perform c s = Inr (r, s1)" and rest: "performAll cs s1 = Inr (rs', s')"
    by (rule performAll_ConsE)
  from Cons.prems(2) have "c \<noteq> Dispose h" "Dispose h \<notin> set cs" by auto
  from Cons.IH [OF rest this(2) perform_keeps_target [OF step this(1) Cons.prems(3,4)] Cons.prems(4)]
  show ?case .
qed

text \<open>An object with no side-table entry has no cached handle to be cleared.\<close>

lemma fresh_cachedHandleIntact:
  "extraObjects s object = None \<Longrightarrow> cachedHandleIntact s object"
  by (simp add: cachedHandleIntact_def GetRegularWeakReferenceImpl_def)

lemma cachedHandleIntact_iff:
  "cachedHandleIntact s object \<longleftrightarrow>
   GetRegularWeakReferenceImpl s object = nullptr \<or>
   derefRegularWeakReferenceImpl s (GetRegularWeakReferenceImpl s object) = Inr object"
  by (auto simp: cachedHandleIntact_def derefRegularWeakReferenceImpl_eq ReadHeapRefAtomic_eq
      split: sum.splits)

subsection \<open>The accesses to a referred field\<close>

lemma perform_heap_length:
  assumes "perform c s = Inr (r, s')"
  shows "length (heap s) \<le> length (heap s')"
proof (cases c)
  case (Create object)
  with assms create_heap [of s object r s'] show ?thesis by auto
next
  case (Dispose weakRef)
  with assms show ?thesis by (auto simp: dispose_Inr split: sum.splits)
next
  case (Deref weakRef)
  with assms show ?thesis by (auto split: sum.splits)
next
  case (PeekUnsafe weakRef)
  with assms show ?thesis by (auto split: sum.splits)
qed

text \<open>Dropping the accesses of a traced run gives the run.\<close>

lemma perform_eq_performTraced: "perform c s = dropAccesses (performTraced c s)"
  by (cases c)
    (simp_all add: createRegularWeakReferenceImpl_def disposeRegularWeakReferenceImpl_def
      derefRegularWeakReferenceImpl_def regularWeakReferenceImplBaseObjectUnsafe_def
      dropAccesses_def split: sum.splits)

lemma performAll_eq_performAllTraced: "performAll cs s = dropAccesses (performAllTraced cs s)"
  by (induction cs arbitrary: s)
    (auto simp: perform_eq_performTraced dropAccesses_def split: sum.splits)

lemma performAllTraced_ConsE:
  assumes "performAllTraced (c # cs) s = Inr (bs, rs, s')"
  obtains as r s1 bs' rs' where "performTraced c s = Inr (as, r, s1)"
    "performAllTraced cs s1 = Inr (bs', rs', s')" "bs = as # bs'" "rs = r # rs'"
  using assms by (auto split: sum.splits)

lemma performTraced_perform:
  "performTraced c s = Inr (as, r, s') \<Longrightarrow> perform c s = Inr (r, s')"
  by (simp add: perform_eq_performTraced dropAccesses_def)

lemma performAllTraced_performAll:
  "performAllTraced cs s = Inr (bs, rs, s') \<Longrightarrow> performAll cs s = Inr (rs, s')"
  by (simp add: performAll_eq_performAllTraced dropAccesses_def)

text \<open>What each function returns as its accesses.\<close>

lemma createTraced_accesses:
  assumes "createRegularWeakReferenceImplTraced s object = Inr (as, h, s')"
  shows "as = (if GetRegularWeakReferenceImpl s object \<noteq> nullptr then []
               else [StoreReferred (Suc (length (heap s))) object])"
  using assms
  by (auto simp: createRegularWeakReferenceImplTraced_def makeRegularWeakReferenceImplTraced_def
      AssertThreadState_def Let_def split: if_splits prod.splits)

lemma disposeTraced_accesses:
  "disposeRegularWeakReferenceImplTraced s weakRef = Inr (as, s') \<Longrightarrow>
   as = [StoreReferred weakRef nullptr]"
  by (auto simp: disposeRegularWeakReferenceImplTraced_def storeReferred_def split: sum.splits)

lemma derefTraced_accesses:
  "derefRegularWeakReferenceImplTraced s weakRef = Inr (as, r) \<Longrightarrow> as = [LoadReferred weakRef]"
  by (auto simp: derefRegularWeakReferenceImplTraced_def ReadHeapRefAtomicTraced_def
      loadReferred_def split: sum.splits)

lemma peekTraced_accesses:
  "regularWeakReferenceImplBaseObjectUnsafeTraced s weakRef = Inr (as, r) \<Longrightarrow>
   as = [LoadReferred weakRef]"
  by (auto simp: regularWeakReferenceImplBaseObjectUnsafeTraced_def loadReferred_def
      split: sum.splits)

lemma performTraced_accesses:
  assumes "performTraced c s = Inr (as, r, s')"
  shows "as = (case c of
       Create object \<Rightarrow>
         if GetRegularWeakReferenceImpl s object \<noteq> nullptr then []
         else [StoreReferred (Suc (length (heap s))) object]
     | Dispose weakRef \<Rightarrow> [StoreReferred weakRef nullptr]
     | Deref weakRef \<Rightarrow> [LoadReferred weakRef]
     | PeekUnsafe weakRef \<Rightarrow> [LoadReferred weakRef])"
proof (cases c)
  case (Create object)
  with assms createTraced_accesses [of s object as r s'] show ?thesis by simp
next
  case (Dispose weakRef)
  with assms show ?thesis by (auto split: sum.splits dest: disposeTraced_accesses)
next
  case (Deref weakRef)
  with assms show ?thesis by (auto split: sum.splits dest: derefTraced_accesses)
next
  case (PeekUnsafe weakRef)
  with assms show ?thesis by (auto split: sum.splits dest: peekTraced_accesses)
qed

lemma stores_of_call:
  assumes "performTraced c s = Inr (as, r, s')" and "h \<le> length (heap s)"
  shows "filter (isStoreTo h) as = (if c = Dispose h then [StoreReferred h nullptr] else [])"
  using performTraced_accesses [OF assms(1)] assms(2) by (cases c) auto

lemma stores_of_calls:
  assumes "performAllTraced cs s = Inr (bs, rs, s')" and "h \<le> length (heap s)"
  shows "filter (isStoreTo h) (concat bs) =
     replicate (count_list cs (Dispose h)) (StoreReferred h nullptr)"
  using assms
proof (induction cs arbitrary: s bs rs)
  case Nil
  then show ?case by simp
next
  case (Cons c cs)
  from Cons.prems(1) obtain as r s1 bs' rs' where
    step: "performTraced c s = Inr (as, r, s1)"
    and rest: "performAllTraced cs s1 = Inr (bs', rs', s')" and bs: "bs = as # bs'"
    by (rule performAllTraced_ConsE)
  from perform_heap_length [OF performTraced_perform [OF step]] Cons.prems(2)
  have "h \<le> length (heap s1)" by simp
  from Cons.IH [OF rest this] stores_of_call [OF step Cons.prems(2)] bs
  show ?case by simp
qed

lemma loads_of_calls:
  assumes "performAllTraced cs s = Inr (bs, rs, s')" and "i < length cs"
    and "cs ! i = Deref p \<or> cs ! i = PeekUnsafe p"
  shows "bs ! i = [LoadReferred p]"
  using assms
proof (induction cs arbitrary: s bs rs i)
  case Nil
  then show ?case by simp
next
  case (Cons c cs)
  from Cons.prems(1) obtain as r s1 bs' rs' where
    step: "performTraced c s = Inr (as, r, s1)"
    and rest: "performAllTraced cs s1 = Inr (bs', rs', s')" and bs: "bs = as # bs'"
    by (rule performAllTraced_ConsE)
  show ?case
  proof (cases i)
    case 0
    with Cons.prems(3) performTraced_accesses [OF step] bs show ?thesis by auto
  next
    case (Suc j)
    with Cons.prems(2,3) have "j < length cs" "cs ! j = Deref p \<or> cs ! j = PeekUnsafe p"
      by simp_all
    from Cons.IH [OF rest this] Suc bs show ?thesis by simp
  qed
qed

text \<open>
  The accesses are complete: a \<open>referred\<close> field that reads differently after a call, or
  that is new, was stored to by the call, with the value it now holds.
\<close>

lemma referred_change_is_stored:
  assumes "performTraced c s = Inr (as, r, s')"
    and "derefRegularWeakReferenceImpl s' p = Inr v"
    and "derefRegularWeakReferenceImpl s p \<noteq> Inr v"
  shows "StoreReferred p v \<in> set as"
proof -
  note step = performTraced_perform [OF assms(1)]
  note acc = performTraced_accesses [OF assms(1)]
  show ?thesis
  proof (cases c)
    case (Create object)
    with step have cr: "createRegularWeakReferenceImpl s object = Inr (r, s')" by simp
    then show ?thesis
    proof (cases rule: create_cases)
      case fast
      with assms(2,3) show ?thesis by simp
    next
      case slow
      from createSlowPath_heap [OF slow(2)] assms(2,3)
      have "p = Suc (length (heap s)) \<and> v = object"
        by (auto simp: deref_Inr heapAt_def nth_append split: if_splits)
      with slow(1) Create acc show ?thesis by simp
    qed
  next
    case (Dispose weakRef)
    with step obtain w where w: "heapAt s weakRef = Some (WeakReferenceObject w)"
      and d: "disposeRegularWeakReferenceImpl s weakRef = Inr s'"
      by (auto simp: dispose_Inr split: sum.splits)
    from dispose_heapAt [OF d w] assms(2,3) have "p = weakRef \<and> v = nullptr"
      by (auto simp: deref_Inr split: if_splits)
    with Dispose acc show ?thesis by simp
  next
    case (Deref weakRef)
    with step assms(2,3) show ?thesis by (auto split: sum.splits)
  next
    case (PeekUnsafe weakRef)
    with step assms(2,3) show ?thesis by (auto split: sum.splits)
  qed
qed

lemma performAll_heap_length:
  "performAll cs s = Inr (rs, s') \<Longrightarrow> length (heap s) \<le> length (heap s')"
proof (induction cs arbitrary: s rs)
  case Nil
  then show ?case by simp
next
  case (Cons c cs)
  from Cons.prems obtain r s1 rs' where
    step: "perform c s = Inr (r, s1)" and rest: "performAll cs s1 = Inr (rs', s')"
    by (rule performAll_ConsE)
  from perform_heap_length [OF step] Cons.IH [OF rest] show ?case by simp
qed

lemma heapAt_None_iff: "heapAt s p = None \<longleftrightarrow> p = nullptr \<or> length (heap s) < p"
  by (simp add: heapAt_def)

subsection \<open>Interleaved calls: every create of an object returns the same handle\<close>

lemma GetRegularWeakReferenceImpl_currentThreadState_update [simp]:
  "GetRegularWeakReferenceImpl (s\<lparr>currentThreadState := st\<rparr>) object =
   GetRegularWeakReferenceImpl s object"
  by (simp add: GetRegularWeakReferenceImpl_def)

lemma make_cached:
  "makeRegularWeakReferenceImpl s object = (w, s') \<Longrightarrow>
   GetRegularWeakReferenceImpl s' object' = GetRegularWeakReferenceImpl s object' \<and> w \<noteq> nullptr"
  by (auto simp: makeRegularWeakReferenceImpl_eq)

lemma GetOrSet_cached:
  "GetOrSetRegularWeakReferenceImpl s object w = (h, s') \<Longrightarrow>
   GetRegularWeakReferenceImpl s' object' =
     (if object' = object then h else GetRegularWeakReferenceImpl s object') \<and>
   h = (if GetRegularWeakReferenceImpl s object \<noteq> nullptr
        then GetRegularWeakReferenceImpl s object else w)"
  by (auto simp: GetOrSetRegularWeakReferenceImpl_def GetRegularWeakReferenceImpl_def
      split: if_splits)

lemma stepCall_cached_stable:
  assumes "stepCall p s = Inr (p', s')"
    and "GetRegularWeakReferenceImpl s object \<noteq> nullptr"
  shows "GetRegularWeakReferenceImpl s' object = GetRegularWeakReferenceImpl s object"
proof (cases p)
  case (Calling c)
  show ?thesis
  proof (cases c)
    case (Create object')
    with Calling assms(1) show ?thesis
      by (auto simp: AssertThreadState_def split: if_splits)
  next
    case (Dispose weakRef)
    with Calling assms show ?thesis
      by (auto split: sum.splits dest: dispose_cached)
  next
    case (Deref weakRef)
    with Calling assms show ?thesis by (auto split: sum.splits)
  next
    case (PeekUnsafe weakRef)
    with Calling assms show ?thesis by (auto split: sum.splits)
  qed
next
  case (Installed object')
  with assms(1) show ?thesis by (auto simp: Let_def split: if_splits)
next
  case (Allocating object')
  with assms(1) show ?thesis by (auto split: prod.splits dest: make_cached)
next
  case (Publishing object' w)
  with assms(1) obtain h where
    "GetOrSetRegularWeakReferenceImpl s object' w = (h, s')"
    by (auto split: prod.splits)
  from GetOrSet_cached [OF this, of object] assms(2) show ?thesis by auto
next
  case (Returned c r)
  with assms(1) show ?thesis by simp
qed

lemma progressOk_stable:
  assumes "progressOk s p"
    and "\<And>object. GetRegularWeakReferenceImpl s object \<noteq> nullptr \<Longrightarrow>
         GetRegularWeakReferenceImpl s' object = GetRegularWeakReferenceImpl s object"
  shows "progressOk s' p"
  using assms by (cases "(s, p)" rule: progressOk.cases) auto

lemma stepCall_progressOk:
  assumes "stepCall p s = Inr (p', s')" and "progressOk s p"
  shows "progressOk s' p'"
proof (cases p)
  case (Calling c)
  show ?thesis
  proof (cases c)
    case (Create object)
    with Calling assms(1) show ?thesis
      by (auto simp: AssertThreadState_def split: if_splits)
  next
    case (Dispose weakRef)
    with Calling assms(1) show ?thesis by (auto split: sum.splits)
  next
    case (Deref weakRef)
    with Calling assms(1) show ?thesis by (auto split: sum.splits)
  next
    case (PeekUnsafe weakRef)
    with Calling assms(1) show ?thesis by (auto split: sum.splits)
  qed
next
  case (Installed object)
  with assms(1) show ?thesis by (auto simp: Let_def split: if_splits)
next
  case (Allocating object)
  with assms(1) show ?thesis by (auto split: prod.splits dest: make_cached)
next
  case (Publishing object w)
  with assms(1) obtain h where
    g: "GetOrSetRegularWeakReferenceImpl s object w = (h, s')" and p': "p' = Returned (Create object) h"
    by (auto split: prod.splits)
  from GetOrSet_cached [OF g, of object] Publishing assms(2) p' show ?thesis by auto
next
  case (Returned c r)
  with assms show ?thesis by simp
qed

lemma progressOk_currentThreadState_update [simp]:
  "progressOk (s\<lparr>currentThreadState := st\<rparr>) p = progressOk s p"
  by (cases "(s, p)" rule: progressOk.cases) auto

lemma stepThread_progressOk:
  assumes "stepThread i (s, ts) = Inr (s', ts')"
    and "\<forall>t \<in> set ts. progressOk s (snd t)"
  shows "\<forall>t \<in> set ts'. progressOk s' (snd t)"
proof (cases "length ts \<le> i")
  case True
  with assms show ?thesis by (simp add: stepThread_def)
next
  case False
  let ?s = "s\<lparr>currentThreadState := fst (ts ! i)\<rparr>"
  from False assms(1) obtain p where
    step: "stepCall (snd (ts ! i)) ?s = Inr (p, s')" and ts': "ts' = ts[i := (fst (ts ! i), p)]"
    by (auto simp: stepThread_def split: sum.splits)
  from False assms(2) have "progressOk ?s (snd (ts ! i))" by simp
  from stepCall_progressOk [OF step this] have new: "progressOk s' p" .
  have old: "progressOk s' (snd t)" if "t \<in> set ts" for t
  proof (rule progressOk_stable)
    from that assms(2) show "progressOk ?s (snd t)" by simp
  next
    fix object
    assume "GetRegularWeakReferenceImpl ?s object \<noteq> nullptr"
    from stepCall_cached_stable [OF step this]
    show "GetRegularWeakReferenceImpl s' object = GetRegularWeakReferenceImpl ?s object" .
  qed
  show ?thesis
  proof
    fix t assume "t \<in> set ts'"
    with ts' have "t = (fst (ts ! i), p) \<or> t \<in> set ts"
      by (auto dest: set_update_subset_insert [THEN subsetD])
    then show "progressOk s' (snd t)"
    proof
      assume "t = (fst (ts ! i), p)"
      with new show ?thesis by simp
    next
      assume "t \<in> set ts"
      then show ?thesis by (rule old)
    qed
  qed
qed

lemma runSchedule_progressOk:
  assumes "runSchedule sched (s, ts) = Inr (s', ts')"
    and "\<forall>t \<in> set ts. progressOk s (snd t)"
  shows "\<forall>t \<in> set ts'. progressOk s' (snd t)"
  using assms
proof (induction sched arbitrary: s ts)
  case Nil
  then show ?case by simp
next
  case (Cons i sched)
  from Cons.prems(1) obtain s1 ts1 where
    step: "stepThread i (s, ts) = Inr (s1, ts1)"
    and rest: "runSchedule sched (s1, ts1) = Inr (s', ts')"
    by (auto split: sum.splits)
  from Cons.IH [OF rest stepThread_progressOk [OF step Cons.prems(2)]] show ?case .
qed

lemma isCalling_progressOk: "isCalling p \<Longrightarrow> progressOk s p"
  by (cases p) auto

text \<open>
  From threads that are all about to make a call, under any schedule, any two threads
  that have returned from \<open>create\<close> on the same object hold the same handle.
\<close>

lemma interleaved_create_same_handle:
  assumes "\<forall>t \<in> set ts. isCalling (snd t)"
    and "runSchedule sched (s, ts) = Inr (s', ts')"
    and "(st, Returned (Create object) h) \<in> set ts'"
    and "(st', Returned (Create object) h') \<in> set ts'"
  shows "h = h' \<and> h \<noteq> nullptr \<and> GetRegularWeakReferenceImpl s' object = h"
proof -
  from assms(1) have "\<forall>t \<in> set ts. progressOk s (snd t)"
    by (simp add: isCalling_progressOk)
  from runSchedule_progressOk [OF assms(2) this] assms(3,4)
  have "progressOk s' (Returned (Create object) h)" "progressOk s' (Returned (Create object) h')"
    by force+
  then show ?thesis by simp
qed

text \<open>
  The steps compose to the function: a \<open>create\<close> that no other thread interrupts takes
  at most four steps and ends with the result and the store of
  \<open>createRegularWeakReferenceImpl\<close> (a returned thread steps in place).
\<close>

lemma uninterrupted_create:
  assumes "createRegularWeakReferenceImpl s object = Inr (r, s')"
  shows "\<exists>p1 s1 p2 s2 p3 s3.
     stepCall (Calling (Create object)) s = Inr (p1, s1) \<and>
     stepCall p1 s1 = Inr (p2, s2) \<and>
     stepCall p2 s2 = Inr (p3, s3) \<and>
     stepCall p3 s3 = Inr (Returned (Create object) r, s')"
proof -
  from assms have run: "AssertThreadState s kRunnable = Inr ()"
    by (simp add: create_Inr AssertThreadState_def)
  from assms show ?thesis
  proof (cases rule: create_cases)
    case fast
    with run cached_installed [of s object] show ?thesis by simp
  next
    case slow
    obtain w s2 where mk: "makeRegularWeakReferenceImpl (GetOrInstall s object) object = (w, s2)"
      by (cases "makeRegularWeakReferenceImpl (GetOrInstall s object) object")
    with slow(2) have "GetOrSetRegularWeakReferenceImpl s2 object w = (r, s')"
      by (simp add: createSlowPath_def)
    with run slow(1) mk show ?thesis by simp
  qed
qed

text \<open>
  The steps are \<open>create\<close> cut at its accesses to the shared store: four uninterrupted
  steps are the function.
\<close>

lemma runCall_create:
  "runCall 4 (Calling (Create object)) s =
     (case createRegularWeakReferenceImpl s object of
        Inl e \<Rightarrow> Inl e
      | Inr (h, s') \<Rightarrow> Inr (Returned (Create object) h, s'))"
  by (simp add: eval_nat_numeral createRegularWeakReferenceImpl_eq AssertThreadState_def
      createSlowPath_def Let_def split: prod.splits)

lemma extraObjects_GetOrInstall_upd:
  "(extraObjects (GetOrInstall s object))(object \<mapsto> v) = (extraObjects s)(object \<mapsto> v)"
  by (simp add: GetOrInstall_def split: option.splits)

lemma create_slow_path_installs:
  assumes "createRegularWeakReferenceImpl s object = Inr (h, s')"
    and "GetRegularWeakReferenceImpl s object = nullptr"
  shows "h = Suc (length (heap s)) \<and>
     heap s' = heap s @ [WeakReferenceObject \<lparr>header = weakRefHeader s, referred = object\<rparr>] \<and>
     extraObjects s' = (extraObjects s)(object \<mapsto> \<lparr>regularWeakReferenceImpl = h\<rparr>)"
  using assms(1)
proof (cases rule: create_cases)
  case fast
  with assms(2) show ?thesis by simp
next
  case slow
  from createSlowPath_result [OF slow(2)] slow(1)
  have h: "h = Suc (length (heap s))" by simp
  moreover from createSlowPath_heap [OF slow(2)]
  have "heap s' = heap s @ [WeakReferenceObject \<lparr>header = weakRefHeader s, referred = object\<rparr>]"
    by simp
  moreover from createSlowPath_extraObjects [OF slow(2)] slow(1)
  have "extraObjects s' =
      (extraObjects (GetOrInstall s object))
        (object \<mapsto> \<lparr>regularWeakReferenceImpl = Suc (length (heap s))\<rparr>)"
    by simp
  ultimately show ?thesis by (simp add: extraObjects_GetOrInstall_upd)
qed

lemma publish_step:
  assumes "i < length ts" and "snd (ts ! i) = Publishing object w" and "w \<noteq> nullptr"
  shows "\<exists>k s'. stepThread i (s, ts) =
        Inr (s', ts[i := (fst (ts ! i), Returned (Create object) k)]) \<and>
     GetRegularWeakReferenceImpl s' object = k \<and> k \<noteq> nullptr \<and> heap s' = heap s \<and>
     (GetRegularWeakReferenceImpl s object \<noteq> nullptr \<longrightarrow>
        k = GetRegularWeakReferenceImpl s object \<and> extraObjects s' = extraObjects s) \<and>
     (GetRegularWeakReferenceImpl s object = nullptr \<longrightarrow>
        k = w \<and> extraObjects s' = (extraObjects s)(object \<mapsto> \<lparr>regularWeakReferenceImpl = w\<rparr>))"
  using assms
  by (auto simp: stepThread_def GetOrSetRegularWeakReferenceImpl_def
      GetRegularWeakReferenceImpl_def)

subsection \<open>Concrete runs\<close>

lemmas eval_defs =
  heapAt_def asRegularWeakReferenceImpl_def AssertThreadState_def GetOrInstall_def
  GetRegularWeakReferenceImpl_def GetOrSetRegularWeakReferenceImpl_def
  makeRegularWeakReferenceImpl_eq ReadHeapRefAtomic_eq createSlowPath_def
  createRegularWeakReferenceImpl_eq disposeRegularWeakReferenceImpl_eq
  derefRegularWeakReferenceImpl_eq regularWeakReferenceImplBaseObjectUnsafe_eq
  exampleRuntime_def exampleLive_def exampleCleared_def exampleRaced_def

lemma example_create: "createRegularWeakReferenceImpl exampleRuntime 1 = Inr (2, exampleLive)"
  by (simp add: eval_defs numeral_2_eq_2)

lemma example_dispose: "disposeRegularWeakReferenceImpl exampleLive 2 = Inr exampleCleared"
  by (simp add: eval_defs)

lemma example_trace: "performAll [Deref 2, Create 1, Deref 2] exampleCleared = Inr ([0, 2, 0], exampleCleared)"
  by (simp add: eval_defs)

text \<open>
  A lost race: both threads read an empty slot and allocate; the second one publishes
  its candidate 3 first, and the first one gets 3 back while its candidate 2 stays in
  the heap, published nowhere.
\<close>

lemma race_lost_candidate_discarded:
  "\<exists>s. runSchedule [0, 0, 1, 1, 0, 1, 1, 0] (exampleRuntime, racingThreads) =
      Inr (s, [(kRunnable, Returned (Create 1) 3), (kRunnable, Returned (Create 1) 3)]) \<and>
      GetRegularWeakReferenceImpl s 1 = 3 \<and>
      heap s = [PlainObject 10 42, WeakReferenceObject \<lparr>header = 20, referred = 1\<rparr>,
                WeakReferenceObject \<lparr>header = 20, referred = 1\<rparr>]"
  by (simp add: racingThreads_def stepThread_def eval_defs numeral_2_eq_2 numeral_3_eq_3)

lemma example_race:
  "runSchedule [0, 0, 1, 1, 0, 1, 1] (exampleRuntime, racingThreads) =
     Inr (exampleRaced, [(kRunnable, Publishing 1 2), (kRunnable, Returned (Create 1) 3)])"
  by (simp add: racingThreads_def stepThread_def eval_defs exampleRaced_def
      numeral_2_eq_2 numeral_3_eq_3)

lemma example_race_lost:
  "stepThread 0 (exampleRaced, [(kRunnable, Publishing 1 2), (kRunnable, Returned (Create 1) 3)]) =
     Inr (exampleRaced, [(kRunnable, Returned (Create 1) 3), (kRunnable, Returned (Create 1) 3)])"
  by (simp add: stepThread_def eval_defs exampleRaced_def)

lemma example_create_traced:
  "createRegularWeakReferenceImplTraced exampleRuntime 1 = Inr ([StoreReferred 2 1], 2, exampleLive)"
  by (simp add: createRegularWeakReferenceImplTraced_def makeRegularWeakReferenceImplTraced_def
      eval_defs numeral_2_eq_2)

lemmas traced_defs =
  disposeRegularWeakReferenceImplTraced_def derefRegularWeakReferenceImplTraced_def
  regularWeakReferenceImplBaseObjectUnsafeTraced_def ReadHeapRefAtomicTraced_def
  storeReferred_def loadReferred_def

lemma example_life_traced:
  "performAllTraced [Deref 2, Dispose 2, PeekUnsafe 2, Create 1, Deref 2] exampleLive =
     Inr ([[LoadReferred 2], [StoreReferred 2 nullptr], [LoadReferred 2], [], [LoadReferred 2]],
          [1, 0, 0, 2, 0], exampleCleared)"
  by (simp add: traced_defs createRegularWeakReferenceImplTraced_def eval_defs)

text \<open>
  Line 47 has no test: a handle that is disposed again is stored to again.
\<close>

lemma example_dispose_twice_traced:
  "performAllTraced [Dispose 2, Dispose 2] exampleLive =
     Inr ([[StoreReferred 2 nullptr], [StoreReferred 2 nullptr]], [0, 0], exampleCleared)"
  by (simp add: traced_defs eval_defs)

section \<open>The claims\<close>

text \<open>
  Claim C1. In any sequence of calls that runs to its end, from any store, all calls of
  create on the same object return the same handle; the handle is not \<^verbatim>\<open>nullptr\<close> and
  is the one the side table holds for the object when the sequence ends.
\<close>

theorem create_same_handle:
  assumes "performAll cs s = Inr (rs, s')"
    and "i < length cs" and "cs ! i = Create object"
    and "j < length cs" and "cs ! j = Create object"
  shows "rs ! i = rs ! j \<and> rs ! i \<noteq> nullptr \<and> GetRegularWeakReferenceImpl s' object = rs ! i"
  using performAll_Create_result [OF assms(1,2,3)] performAll_Create_result [OF assms(1,4,5)]
  by simp

theorem create_same_handle_witness:
  "performAll [Create 1, Dispose 2, Create 1, Deref 2, Create 1] exampleRuntime =
     Inr ([2, 0, 2, 0, 2], exampleCleared) \<and>
   [2, 0, 2, 0, 2 :: nat] ! 0 = [2, 0, 2, 0, 2] ! 4 \<and>
   GetRegularWeakReferenceImpl exampleCleared 1 = 2"
proof -
  have run: "performAll [Create 1, Dispose 2, Create 1, Deref 2, Create 1] exampleRuntime =
     Inr ([2, 0, 2, 0, 2], exampleCleared)"
    by (simp add: eval_defs numeral_2_eq_2)
  from create_same_handle [OF run, of 0 1 4] run show ?thesis by simp
qed

text \<open>
  Claim C2. Once dispose has run on a handle, then after any further sequence of calls
  (create, dispose, dereference and unsafe peek, on any arguments) dereferencing the
  handle yields \<^verbatim>\<open>nullptr\<close>, and so does every dereference of it inside the sequence.
\<close>

theorem cleared_is_terminal:
  assumes "disposeRegularWeakReferenceImpl s weakRef = Inr s1"
    and "performAll cs s1 = Inr (rs, s2)"
  shows "derefRegularWeakReferenceImpl s2 weakRef = Inr nullptr \<and>
     (\<forall>i < length cs. cs ! i = Deref weakRef \<longrightarrow> rs ! i = nullptr)"
proof -
  from assms(1) obtain w where "heapAt s weakRef = Some (WeakReferenceObject w)"
    by (auto simp: dispose_Inr)
  from dispose_heapAt [OF assms(1) this]
  have cleared: "derefRegularWeakReferenceImpl s1 weakRef = Inr nullptr"
    by (simp add: deref_Inr)
  have "rs ! i = nullptr" if "i < length cs" "cs ! i = Deref weakRef" for i
  proof -
    from performAll_nth [OF assms(2) that(1)] that(2) obtain t t' where
      pre: "performAll (take i cs) s1 = Inr (take i rs, t)"
      and step: "perform (Deref weakRef) t = Inr (rs ! i, t')"
      by auto
    from performAll_deref [OF pre cleared]
    have "derefRegularWeakReferenceImpl t weakRef = Inr nullptr" by simp
    with perform_Deref_result [OF step] show ?thesis by simp
  qed
  moreover from performAll_deref [OF assms(2) cleared]
  have "derefRegularWeakReferenceImpl s2 weakRef = Inr nullptr" by simp
  ultimately show ?thesis by blast
qed

theorem cleared_is_terminal_witness:
  "disposeRegularWeakReferenceImpl exampleLive 2 = Inr exampleCleared \<and>
   performAll [Deref 2, Create 1, Deref 2] exampleCleared = Inr ([0, 2, 0], exampleCleared) \<and>
   derefRegularWeakReferenceImpl exampleCleared 2 = Inr nullptr"
proof -
  note h1 = example_dispose and h2 = example_trace
  from cleared_is_terminal [OF h1 h2] h1 h2 show ?thesis by simp
qed

text \<open>
  Claim C3. Start in a store where the handle cached for the object, if any, is intact.
  After any calls, let create on the object return \<open>h\<close>; after any further calls, if
  \<open>h\<close> was disposed in neither sequence, dereferencing \<open>h\<close> yields the object, which is
  not \<^verbatim>\<open>nullptr\<close>.
\<close>

theorem deref_before_dispose:
  assumes "cachedHandleIntact s0 object"
    and "performAll cs1 s0 = Inr (rs1, s)"
    and "createRegularWeakReferenceImpl s object = Inr (h, s1)"
    and "performAll cs2 s1 = Inr (rs2, s2)"
    and "Dispose h \<notin> set cs1" and "Dispose h \<notin> set cs2"
    and "object \<noteq> nullptr"
  shows "derefRegularWeakReferenceImpl s2 h = Inr object \<and>
     derefRegularWeakReferenceImpl s2 h \<noteq> Inr nullptr"
proof -
  from create_nonnull [OF assms(3)] have h: "h \<noteq> nullptr" .
  with assms(1) have "GetRegularWeakReferenceImpl s0 object = h \<longrightarrow>
      derefRegularWeakReferenceImpl s0 h = Inr object"
    by (auto simp: cachedHandleIntact_iff)
  from performAll_keeps_target [OF assms(2,5) this h]
  have before: "GetRegularWeakReferenceImpl s object = h \<longrightarrow>
      derefRegularWeakReferenceImpl s h = Inr object" .
  have "derefRegularWeakReferenceImpl s1 h = Inr object"
  proof (cases "GetRegularWeakReferenceImpl s object = nullptr")
    case True
    from create_fresh_deref [OF assms(3) True] show ?thesis by blast
  next
    case False
    with assms(3) before show ?thesis by (auto elim: create_cases)
  qed
  from performAll_deref [OF assms(4) this] assms(6,7) show ?thesis by simp
qed

theorem deref_before_dispose_witness:
  "cachedHandleIntact exampleRuntime 1 \<and>
   performAll [Create 1, Deref 2] exampleRuntime = Inr ([2, 1], exampleLive) \<and>
   createRegularWeakReferenceImpl exampleLive 1 = Inr (2, exampleLive) \<and>
   performAll [PeekUnsafe 2, Create 1] exampleLive = Inr ([1, 2], exampleLive) \<and>
   derefRegularWeakReferenceImpl exampleLive 2 = Inr 1"
proof -
  have h1: "cachedHandleIntact exampleRuntime 1"
    by (simp add: cachedHandleIntact_def eval_defs)
  have h2: "performAll [Create 1, Deref 2] exampleRuntime = Inr ([2, 1], exampleLive)"
    by (simp add: eval_defs numeral_2_eq_2)
  have h3: "createRegularWeakReferenceImpl exampleLive 1 = Inr (2, exampleLive)"
    by (simp add: eval_defs)
  have h4: "performAll [PeekUnsafe 2, Create 1] exampleLive = Inr ([1, 2], exampleLive)"
    by (simp add: eval_defs)
  have "Dispose 2 \<notin> set [Create 1, Deref 2]" "Dispose 2 \<notin> set [PeekUnsafe 2, Create 1]"
    "(1::nat) \<noteq> nullptr" by simp_all
  from deref_before_dispose [OF h1 h2 h3 h4 this] h1 h2 h3 h4 show ?thesis by simp
qed

text \<open>
  Claim C4. For every handle (an address that holds a weak reference), dispose returns,
  sets \<open>referred\<close> to \<^verbatim>\<open>nullptr\<close> whatever it held, and leaves every other field of the
  handle as it was; disposing again gives the same store back.
\<close>

theorem dispose_clears_and_is_idempotent:
  assumes "asRegularWeakReferenceImpl s weakRef = Inr w"
  shows "\<exists>s1. disposeRegularWeakReferenceImpl s weakRef = Inr s1 \<and>
     asRegularWeakReferenceImpl s1 weakRef = Inr (w\<lparr>referred := nullptr\<rparr>) \<and>
     disposeRegularWeakReferenceImpl s1 weakRef = Inr s1"
proof -
  let ?s1 = "s\<lparr>heap := (heap s)[weakRef - 1 := WeakReferenceObject (w\<lparr>referred := nullptr\<rparr>)]\<rparr>"
  from assms have at: "heapAt s weakRef = Some (WeakReferenceObject w)"
    by (simp add: asRegularWeakReferenceImpl_Inr)
  then have d: "disposeRegularWeakReferenceImpl s weakRef = Inr ?s1"
    by (simp add: dispose_Inr)
  from dispose_heapAt [OF d at]
  have at1: "heapAt ?s1 weakRef = Some (WeakReferenceObject (w\<lparr>referred := nullptr\<rparr>))"
    by simp
  then have "disposeRegularWeakReferenceImpl ?s1 weakRef = Inr ?s1"
    by (simp add: dispose_Inr)
  with d at1 show ?thesis
    by (simp add: asRegularWeakReferenceImpl_Inr)
qed

theorem dispose_clears_and_is_idempotent_witness:
  "asRegularWeakReferenceImpl exampleLive 2 = Inr \<lparr>header = 20, referred = 1\<rparr> \<and>
   (\<exists>s1. disposeRegularWeakReferenceImpl exampleLive 2 = Inr s1 \<and>
     asRegularWeakReferenceImpl s1 2 = Inr \<lparr>header = 20, referred = nullptr\<rparr> \<and>
     disposeRegularWeakReferenceImpl s1 2 = Inr s1)"
proof -
  have h: "asRegularWeakReferenceImpl exampleLive 2 = Inr \<lparr>header = 20, referred = 1\<rparr>"
    by (simp add: eval_defs)
  from dispose_clears_and_is_idempotent [OF h] h show ?thesis by simp
qed

text \<open>
  Claim C5. If the current thread is not runnable, create ends in the failed assertion
  and returns nothing; if it is runnable, create returns a handle and a store, so the
  assertion branch is not taken.
\<close>

theorem create_requires_runnable:
  "(currentThreadState s \<noteq> kRunnable \<longrightarrow>
      createRegularWeakReferenceImpl s object = Inl ThreadStateAssertionFailed) \<and>
   (currentThreadState s = kRunnable \<longrightarrow>
      (\<exists>h s'. createRegularWeakReferenceImpl s object = Inr (h, s')))"
  by (simp add: createRegularWeakReferenceImpl_eq AssertThreadState_def Let_def)

theorem create_requires_runnable_witness:
  "createRegularWeakReferenceImpl (exampleRuntime\<lparr>currentThreadState := kNotRunnable\<rparr>) 1 =
     Inl ThreadStateAssertionFailed \<and>
   (\<exists>h s'. createRegularWeakReferenceImpl exampleRuntime 1 = Inr (h, s'))"
proof -
  have "currentThreadState (exampleRuntime\<lparr>currentThreadState := kNotRunnable\<rparr>) \<noteq> kRunnable"
    and "currentThreadState exampleRuntime = kRunnable"
    by (simp_all add: exampleRuntime_def)
  with create_requires_runnable [of "exampleRuntime\<lparr>currentThreadState := kNotRunnable\<rparr>" 1]
    create_requires_runnable [of exampleRuntime 1]
  show ?thesis by blast
qed

text \<open>
  Claim C6. When the side-table entry of the object already caches a handle and the
  thread is runnable, create returns that handle and the store it was called in:
  nothing is allocated, the heap is the same list.
\<close>

theorem create_fast_path:
  assumes "currentThreadState s = kRunnable"
    and "extraObjects s object = Some e"
    and "regularWeakReferenceImpl e \<noteq> nullptr"
  shows "createRegularWeakReferenceImpl s object = Inr (regularWeakReferenceImpl e, s)"
proof -
  from assms(2,3) have "GetRegularWeakReferenceImpl s object = regularWeakReferenceImpl e"
    and "GetOrInstall s object = s"
    by (simp_all add: GetRegularWeakReferenceImpl_def GetOrInstall_def)
  with assms(1,3) show ?thesis by (simp add: create_Inr)
qed

theorem create_fast_path_witness:
  "currentThreadState exampleLive = kRunnable \<and>
   extraObjects exampleLive 1 = Some \<lparr>regularWeakReferenceImpl = 2\<rparr> \<and>
   createRegularWeakReferenceImpl exampleLive 1 = Inr (2, exampleLive) \<and>
   length (heap exampleLive) = 2"
proof -
  have h: "currentThreadState exampleLive = kRunnable"
    "extraObjects exampleLive 1 = Some \<lparr>regularWeakReferenceImpl = 2\<rparr>"
    "regularWeakReferenceImpl \<lparr>regularWeakReferenceImpl = 2\<rparr> \<noteq> nullptr"
    by (simp_all add: exampleLive_def)
  from create_fast_path [OF h] h show ?thesis by (simp add: exampleLive_def)
qed

text \<open>
  Claim C7. Whenever \<open>create\<close> returns, the handle it returns is the one the side table
  holds for the object afterwards, and it is not \<^verbatim>\<open>nullptr\<close>. If a handle was cached when
  it was called, that handle is returned and the store is unchanged. If none was, the
  slow path runs: the candidate is allocated at the next address with \<open>referred\<close> the
  object, installed in the side table, and returned. The four steps of a thread inside
  \<open>create\<close>, run without interruption, are \<open>create\<close>. When threads race, in any
  configuration reached from threads about to make their calls, a thread that stands at
  the publication of its candidate (line 42) returns with its next step, and what it
  returns is what the side table then holds: if another handle was installed in the
  meantime, that handle, with the side table and the heap unchanged, so the candidate
  is discarded without an error; otherwise the candidate, now installed.
\<close>

theorem create_returns_published:
  fixes s s0 :: "('h, 'b) runtime"
  shows "(createRegularWeakReferenceImpl s object = Inr (h, s') \<longrightarrow>
       GetRegularWeakReferenceImpl s' object = h \<and> h \<noteq> nullptr \<and>
       (GetRegularWeakReferenceImpl s object \<noteq> nullptr \<longrightarrow>
          h = GetRegularWeakReferenceImpl s object \<and> s' = s) \<and>
       (GetRegularWeakReferenceImpl s object = nullptr \<longrightarrow>
          h = Suc (length (heap s)) \<and>
          heap s' = heap s @
            [WeakReferenceObject \<lparr>header = weakRefHeader s, referred = object\<rparr>] \<and>
          extraObjects s' = (extraObjects s)(object \<mapsto> \<lparr>regularWeakReferenceImpl = h\<rparr>))) \<and>
     runCall 4 (Calling (Create object)) s =
       (case createRegularWeakReferenceImpl s object of
          Inl e \<Rightarrow> Inl e
        | Inr (h, s') \<Rightarrow> Inr (Returned (Create object) h, s')) \<and>
     ((\<forall>t \<in> set ts. isCalling (snd t)) \<and> runSchedule sched (s0, ts) = Inr (s1, ts1) \<and>
      i < length ts1 \<and> snd (ts1 ! i) = Publishing object w \<longrightarrow>
       (\<exists>k s2. stepThread i (s1, ts1) =
            Inr (s2, ts1[i := (fst (ts1 ! i), Returned (Create object) k)]) \<and>
          GetRegularWeakReferenceImpl s2 object = k \<and> k \<noteq> nullptr \<and> heap s2 = heap s1 \<and>
          (GetRegularWeakReferenceImpl s1 object \<noteq> nullptr \<longrightarrow>
             k = GetRegularWeakReferenceImpl s1 object \<and> extraObjects s2 = extraObjects s1) \<and>
          (GetRegularWeakReferenceImpl s1 object = nullptr \<longrightarrow>
             k = w \<and>
             extraObjects s2 = (extraObjects s1)(object \<mapsto> \<lparr>regularWeakReferenceImpl = w\<rparr>))))"
proof (intro conjI impI)
  assume cr: "createRegularWeakReferenceImpl s object = Inr (h, s')"
  from create_cached [OF cr, of object] show "GetRegularWeakReferenceImpl s' object = h" by simp
  from create_nonnull [OF cr] show "h \<noteq> nullptr" .
  {
    assume "GetRegularWeakReferenceImpl s object \<noteq> nullptr"
    with cr show "h = GetRegularWeakReferenceImpl s object" and "s' = s"
      by (auto elim: create_cases)
  }
  {
    assume "GetRegularWeakReferenceImpl s object = nullptr"
    from create_slow_path_installs [OF cr this]
    show "h = Suc (length (heap s))"
      and "heap s' = heap s @
        [WeakReferenceObject \<lparr>header = weakRefHeader s, referred = object\<rparr>]"
      and "extraObjects s' = (extraObjects s)(object \<mapsto> \<lparr>regularWeakReferenceImpl = h\<rparr>)"
      by blast+
  }
next
  show "runCall 4 (Calling (Create object)) s =
       (case createRegularWeakReferenceImpl s object of
          Inl e \<Rightarrow> Inl e
        | Inr (h, s') \<Rightarrow> Inr (Returned (Create object) h, s'))"
    by (rule runCall_create)
next
  assume reach: "(\<forall>t \<in> set ts. isCalling (snd t)) \<and> runSchedule sched (s0, ts) = Inr (s1, ts1) \<and>
      i < length ts1 \<and> snd (ts1 ! i) = Publishing object w"
  then have "\<forall>t \<in> set ts. progressOk s0 (snd t)"
    by (simp add: isCalling_progressOk)
  with reach runSchedule_progressOk [of sched s0 ts s1 ts1]
  have ok: "\<forall>t \<in> set ts1. progressOk s1 (snd t)" by blast
  from reach have "ts1 ! i \<in> set ts1" by simp
  with ok have "progressOk s1 (snd (ts1 ! i))" by blast
  with reach have "w \<noteq> nullptr" by simp
  with reach publish_step [of i ts1 object w s1]
  show "\<exists>k s2. stepThread i (s1, ts1) =
            Inr (s2, ts1[i := (fst (ts1 ! i), Returned (Create object) k)]) \<and>
          GetRegularWeakReferenceImpl s2 object = k \<and> k \<noteq> nullptr \<and> heap s2 = heap s1 \<and>
          (GetRegularWeakReferenceImpl s1 object \<noteq> nullptr \<longrightarrow>
             k = GetRegularWeakReferenceImpl s1 object \<and> extraObjects s2 = extraObjects s1) \<and>
          (GetRegularWeakReferenceImpl s1 object = nullptr \<longrightarrow>
             k = w \<and>
             extraObjects s2 = (extraObjects s1)(object \<mapsto> \<lparr>regularWeakReferenceImpl = w\<rparr>))"
    by blast
qed

theorem create_returns_published_witness:
  "createRegularWeakReferenceImpl exampleRuntime 1 = Inr (2, exampleLive) \<and>
   GetRegularWeakReferenceImpl exampleRuntime 1 = nullptr \<and>
   GetRegularWeakReferenceImpl exampleLive 1 = 2 \<and>
   heap exampleLive = heap exampleRuntime @ [WeakReferenceObject \<lparr>header = 20, referred = 1\<rparr>] \<and>
   runCall 4 (Calling (Create 1)) exampleRuntime = Inr (Returned (Create 1) 2, exampleLive) \<and>
   runSchedule [0, 0, 1, 1, 0, 1, 1] (exampleRuntime, racingThreads) =
     Inr (exampleRaced, [(kRunnable, Publishing 1 2), (kRunnable, Returned (Create 1) 3)]) \<and>
   GetRegularWeakReferenceImpl exampleRaced 1 = 3 \<and>
   (\<exists>s2. stepThread 0
          (exampleRaced, [(kRunnable, Publishing 1 2), (kRunnable, Returned (Create 1) 3)]) =
        Inr (s2, [(kRunnable, Returned (Create 1) 3), (kRunnable, Returned (Create 1) 3)]) \<and>
      GetRegularWeakReferenceImpl s2 1 = 3 \<and>
      extraObjects s2 = extraObjects exampleRaced \<and> heap s2 = heap exampleRaced)"
proof -
  let ?ts1 = "[(kRunnable, Publishing 1 2), (kRunnable, Returned (Create 1) 3)]"
  note inst = create_returns_published [where s = exampleRuntime and object = 1 and h = 2
      and s' = exampleLive and ts = racingThreads and sched = "[0, 0, 1, 1, 0, 1, 1]"
      and ?s0.0 = exampleRuntime and ?s1.0 = exampleRaced and ?ts1.0 = ?ts1 and i = 0 and w = 2]
  have empty: "GetRegularWeakReferenceImpl exampleRuntime 1 = nullptr"
    by (simp add: eval_defs)
  have cached: "GetRegularWeakReferenceImpl exampleRaced 1 = 3"
    by (simp add: GetRegularWeakReferenceImpl_def exampleRaced_def)
  have hdr: "weakRefHeader exampleRuntime = 20" by (simp add: exampleRuntime_def)
  from inst example_create empty
  have "GetRegularWeakReferenceImpl exampleLive 1 = 2"
    and "heap exampleLive = heap exampleRuntime @
      [WeakReferenceObject \<lparr>header = weakRefHeader exampleRuntime, referred = 1\<rparr>]"
    by blast+
  moreover from inst example_create
  have "runCall 4 (Calling (Create 1)) exampleRuntime = Inr (Returned (Create 1) 2, exampleLive)"
    by simp
  moreover have calling: "\<forall>t \<in> set racingThreads. isCalling (snd t)"
    by (simp add: racingThreads_def)
  from inst calling example_race cached
  have "\<exists>k s2. stepThread 0 (exampleRaced, ?ts1) =
        Inr (s2, ?ts1[0 := (fst (?ts1 ! 0), Returned (Create 1) k)]) \<and>
      GetRegularWeakReferenceImpl s2 1 = k \<and> heap s2 = heap exampleRaced \<and>
      k = 3 \<and> extraObjects s2 = extraObjects exampleRaced"
    by force
  then have "\<exists>s2. stepThread 0 (exampleRaced, ?ts1) =
        Inr (s2, [(kRunnable, Returned (Create 1) 3), (kRunnable, Returned (Create 1) 3)]) \<and>
      GetRegularWeakReferenceImpl s2 1 = 3 \<and>
      extraObjects s2 = extraObjects exampleRaced \<and> heap s2 = heap exampleRaced"
    by auto
  ultimately show ?thesis using example_create empty example_race cached hdr by simp
qed

text \<open>
  Claim C8. Let \<open>create\<close> allocate the handle \<open>h\<close> for a target that is not \<^verbatim>\<open>nullptr\<close> and is
  an object of the heap, and let any sequence of calls follow in which \<open>h\<close> is disposed
  at most once, as in the life of a handle, which the collector clears once. Then, of
  the accesses that the functions return: \<open>create\<close> stores to the \<open>referred\<close> field of
  \<open>h\<close> once, the target; the calls that follow store to it once for each dispose of
  \<open>h\<close>, each time \<^verbatim>\<open>nullptr\<close>, and no other call stores to it; so it is written at most
  twice, and exactly twice once \<open>h\<close> has been disposed. At the end \<open>referred\<close> is the
  target if \<open>h\<close> was not disposed and \<^verbatim>\<open>nullptr\<close> otherwise, and the target is still an
  object of the heap (no cell is ever removed; reclamation is the collector's). Every
  dereference and every unsafe peek in the sequence makes one access, a load.
\<close>

theorem referred_written_at_creation_and_disposal:
  fixes s :: "('h, 'b) runtime"
  assumes "createRegularWeakReferenceImplTraced s object = Inr (as, h, s1)"
    and "GetRegularWeakReferenceImpl s object = nullptr"
    and "object \<noteq> nullptr" and "heapAt s object = Some x"
    and "performAllTraced cs s1 = Inr (bs, rs, s2)"
    and "count_list cs (Dispose h) \<le> 1"
  shows "filter (isStoreTo h) as = [StoreReferred h object] \<and>
     filter (isStoreTo h) (concat bs) =
       replicate (count_list cs (Dispose h)) (StoreReferred h nullptr) \<and>
     length (filter (isStoreTo h) (as @ concat bs)) \<le> 2 \<and>
     (Dispose h \<in> set cs \<longrightarrow> length (filter (isStoreTo h) (as @ concat bs)) = 2) \<and>
     derefRegularWeakReferenceImpl s2 h =
       Inr (if Dispose h \<in> set cs then nullptr else object) \<and>
     heapAt s2 object \<noteq> None \<and>
     (\<forall>i < length cs. \<forall>p. cs ! i = Deref p \<or> cs ! i = PeekUnsafe p \<longrightarrow>
        bs ! i = [LoadReferred p])"
proof -
  from assms(1) have cr: "createRegularWeakReferenceImpl s object = Inr (h, s1)"
    by (simp add: createRegularWeakReferenceImpl_def dropAccesses_def)
  note run = performAllTraced_performAll [OF assms(5)]
  from create_fresh_deref [OF cr assms(2)]
  have h: "h = Suc (length (heap s))" and live: "derefRegularWeakReferenceImpl s1 h = Inr object"
    by blast+
  from createTraced_accesses [OF assms(1)] assms(2) h
  have creation: "filter (isStoreTo h) as = [StoreReferred h object]" by simp
  from deref_Inr_bound [OF live] have "h \<le> length (heap s1)" .
  from stores_of_calls [OF assms(5) this]
  have disposal: "filter (isStoreTo h) (concat bs) =
      replicate (count_list cs (Dispose h)) (StoreReferred h nullptr)" .
  from creation disposal
  have total: "length (filter (isStoreTo h) (as @ concat bs)) = Suc (count_list cs (Dispose h))"
    by simp
  with assms(6) have atmost: "length (filter (isStoreTo h) (as @ concat bs)) \<le> 2" by simp
  have exactly: "length (filter (isStoreTo h) (as @ concat bs)) = 2" if "Dispose h \<in> set cs"
  proof -
    from that have "count_list cs (Dispose h) \<noteq> 0" by (simp add: count_list_0_iff)
    with assms(6) total show ?thesis by simp
  qed
  from perform_heap_length [of "Create object" s h s1] cr performAll_heap_length [OF run]
  have "length (heap s) \<le> length (heap s2)" by simp
  with assms(4) have alive: "heapAt s2 object \<noteq> None"
    by (auto simp: heapAt_None_iff dest: heapAt_Some_bounds)
  from loads_of_calls [OF assms(5)]
  have readonly: "\<forall>i < length cs. \<forall>p. cs ! i = Deref p \<or> cs ! i = PeekUnsafe p \<longrightarrow>
      bs ! i = [LoadReferred p]" by blast
  from creation disposal atmost exactly performAll_deref [OF run live] alive readonly
  show ?thesis by blast
qed

theorem referred_written_at_creation_and_disposal_witness:
  "createRegularWeakReferenceImplTraced exampleRuntime 1 =
     Inr ([StoreReferred 2 1], 2, exampleLive) \<and>
   GetRegularWeakReferenceImpl exampleRuntime 1 = nullptr \<and>
   heapAt exampleRuntime 1 = Some (PlainObject 10 42) \<and>
   performAllTraced [Deref 2, Dispose 2, PeekUnsafe 2, Create 1, Deref 2] exampleLive =
     Inr ([[LoadReferred 2], [StoreReferred 2 nullptr], [LoadReferred 2], [], [LoadReferred 2]],
          [1, 0, 0, 2, 0], exampleCleared) \<and>
   count_list [Deref 2, Dispose 2, PeekUnsafe 2, Create 1, Deref 2] (Dispose 2) = 1 \<and>
   length (filter (isStoreTo 2)
     ([StoreReferred 2 1] @
      concat [[LoadReferred 2], [StoreReferred 2 nullptr], [LoadReferred 2], [], [LoadReferred 2]])) = 2 \<and>
   derefRegularWeakReferenceImpl exampleCleared 2 = Inr nullptr \<and>
   heapAt exampleCleared 1 \<noteq> None"
proof -
  let ?cs = "[Deref 2, Dispose 2, PeekUnsafe 2, Create 1, Deref 2]"
  have h2: "GetRegularWeakReferenceImpl exampleRuntime 1 = nullptr"
    by (simp add: eval_defs)
  have h3: "(1::nat) \<noteq> nullptr" by simp
  have h4: "heapAt exampleRuntime 1 = Some (PlainObject 10 42)"
    by (simp add: eval_defs)
  have h6: "count_list ?cs (Dispose 2) = 1" by simp
  then have h6': "count_list ?cs (Dispose 2) \<le> 1" by simp
  have d: "Dispose 2 \<in> set ?cs" by simp
  from referred_written_at_creation_and_disposal
    [OF example_create_traced h2 h3 h4 example_life_traced h6'] d
  have "length (filter (isStoreTo 2)
     ([StoreReferred 2 1] @
      concat [[LoadReferred 2], [StoreReferred 2 nullptr], [LoadReferred 2], [], [LoadReferred 2]])) = 2"
    and "derefRegularWeakReferenceImpl exampleCleared 2 = Inr nullptr"
    and "heapAt exampleCleared 1 \<noteq> None"
    by presburger+
  with example_create_traced h2 h4 example_life_traced h6 show ?thesis by blast
qed

text \<open>
  Claim C10. A dispose that returns changes nothing but the \<open>referred\<close> field of its
  handle: the side table, the thread state, the size of the heap and every other heap
  cell (the target object among them) are as before, and the handle keeps its header
  and every field other than \<open>referred\<close>.
\<close>

theorem dispose_modifies_referred_only:
  assumes "disposeRegularWeakReferenceImpl s weakRef = Inr s'"
  shows "extraObjects s' = extraObjects s \<and>
     currentThreadState s' = currentThreadState s \<and>
     weakRefHeader s' = weakRefHeader s \<and>
     length (heap s') = length (heap s) \<and>
     (\<forall>p. p \<noteq> weakRef \<longrightarrow> heapAt s' p = heapAt s p) \<and>
     (\<exists>w. heapAt s weakRef = Some (WeakReferenceObject w) \<and>
          heapAt s' weakRef = Some (WeakReferenceObject (w\<lparr>referred := nullptr\<rparr>)) \<and>
          header (w\<lparr>referred := nullptr\<rparr>) = header w)"
proof -
  from assms obtain w where w: "heapAt s weakRef = Some (WeakReferenceObject w)"
    and s': "s' = s\<lparr>heap := (heap s)[weakRef - 1 := WeakReferenceObject (w\<lparr>referred := nullptr\<rparr>)]\<rparr>"
    by (auto simp: dispose_Inr)
  from dispose_heapAt [OF assms w] have "\<forall>p. p \<noteq> weakRef \<longrightarrow> heapAt s' p = heapAt s p"
    and "heapAt s' weakRef = Some (WeakReferenceObject (w\<lparr>referred := nullptr\<rparr>))"
    by simp_all
  with w s' show ?thesis by simp
qed

theorem dispose_modifies_referred_only_witness:
  "disposeRegularWeakReferenceImpl exampleLive 2 = Inr exampleCleared \<and>
   extraObjects exampleCleared = extraObjects exampleLive \<and>
   heapAt exampleCleared 1 = heapAt exampleLive 1 \<and>
   length (heap exampleCleared) = length (heap exampleLive)"
proof -
  have h: "disposeRegularWeakReferenceImpl exampleLive 2 = Inr exampleCleared"
    by (rule example_dispose)
  from dispose_modifies_referred_only [OF h] h show ?thesis by simp
qed

end
